theory Spec2Isabelle
  imports Complex_Main "HOL-Library.Multiset"
begin

section \<open>Machine integers and faults\<close>

text \<open>
  The sources are C++23 for an LP64 target: \<open>size_t\<close> and \<open>unsigned long\<close> are 64-bit
  unsigned (the code sends \<open>size_t\<close> objects as \<open>MPI_UNSIGNED_LONG\<close>), \<open>int\<close> is 32-bit
  two's complement. Values are kept as \<open>nat\<close> and \<open>int\<close>; every place where the C++
  arithmetic wraps or converts has the reduction written out.
\<close>

definition wrap64 :: "nat \<Rightarrow> nat" where
  "wrap64 n = n mod 2 ^ 64"

definition size_t_of_int :: "int \<Rightarrow> nat" where
  \<comment> \<open>the implicit conversion \<open>int \<rightarrow> size_t\<close> and \<open>static_cast<size_t>(int)\<close>\<close>
  "size_t_of_int i = nat (i mod 2 ^ 64)"

definition int_of_size_t :: "nat \<Rightarrow> int" where
  \<comment> \<open>\<open>static_cast<int>(size_t)\<close> and the initialisation \<open>int n = s.length()\<close>\<close>
  "int_of_size_t n = (int n + 2 ^ 31) mod 2 ^ 32 - 2 ^ 31"

text \<open>
  Operations of the source that have no result: an integer division by zero, an
  unchecked read outside a \<open>string_view\<close> or \<open>vector\<close>, an exception leaving a
  function, an erroneous or never matched MPI call, unsynchronised writes of two threads
  to one object. None of them returns to the
  caller; the model makes each one a value.
\<close>

datatype fault =
    DivisionByZero     \<comment> \<open>integer \<open>/\<close> or \<open>%\<close> with a zero divisor\<close>
  | OutOfBounds        \<comment> \<open>unchecked \<open>operator[]\<close> past the end\<close>
  | OutOfRange         \<comment> \<open>\<open>std::out_of_range\<close> thrown by \<open>substr\<close>\<close>
  | LengthError        \<comment> \<open>\<open>std::length_error\<close> thrown by \<open>resize\<close> or \<open>reserve\<close>\<close>
  | MPI_ERR_COUNT      \<comment> \<open>negative count given to an MPI call\<close>
  | MPI_ERR_TYPE       \<comment> \<open>message received with another datatype than it was sent with\<close>
  | MPI_ERR_TRUNCATE   \<comment> \<open>message longer than the receive buffer\<close>
  | Blocked            \<comment> \<open>a receive that no message matches never returns\<close>
  | DataRace           \<comment> \<open>two threads write one object with nothing ordering the writes\<close>

text \<open>
  Three of the faults are undefined behaviour: C++ gives a division by zero, an
  out-of-bounds read and a data race no meaning, the program neither checks for them nor
  reports them.
  The others are errors that the library or the MPI runtime detects and raises. A call
  is \<open>rejected\<close> when it ends in an error of the second kind.
\<close>

fun undefined_behaviour :: "fault \<Rightarrow> bool" where
  "undefined_behaviour DivisionByZero = True"
| "undefined_behaviour OutOfBounds = True"
| "undefined_behaviour OutOfRange = False"
| "undefined_behaviour LengthError = False"
| "undefined_behaviour MPI_ERR_COUNT = False"
| "undefined_behaviour MPI_ERR_TYPE = False"
| "undefined_behaviour MPI_ERR_TRUNCATE = False"
| "undefined_behaviour Blocked = False"
| "undefined_behaviour DataRace = True"

definition rejected :: "fault + 'a \<Rightarrow> bool" where
  "rejected outcome = (case outcome of Inl e \<Rightarrow> \<not> undefined_behaviour e | Inr _ \<Rightarrow> False)"

definition size_t_div :: "nat \<Rightarrow> nat \<Rightarrow> fault + nat" where
  "size_t_div a b = (if b = 0 then Inl DivisionByZero else Inr (a div b))"

definition size_t_mod :: "nat \<Rightarrow> nat \<Rightarrow> fault + nat" where
  "size_t_mod a b = (if b = 0 then Inl DivisionByZero else Inr (a mod b))"


section \<open>Work partition (\<open>mpi_manager.cpp\<close>)\<close>

text \<open>
  \<^verbatim>\<open>
  std::pair<size_t, size_t>
  MPIManager::calculateWorkDistribution(size_t total_sequences, int process_rank,
                                        int total_processes) const {
    size_t base_work = total_sequences / total_processes;
    size_t extra_work = total_sequences % total_processes;
    size_t start_idx = process_rank * base_work +
                       std::min(static_cast<size_t>(process_rank), extra_work);
    size_t count =
        base_work + (process_rank < static_cast<int>(extra_work) ? 1 : 0);
    return {start_idx, count};
  }
  \<close>
  Both \<open>int\<close> operands are converted to \<open>size_t\<close> where they meet one; the comparison
  for the extra item is made on \<open>int\<close>.
\<close>

definition calculateWorkDistribution :: "nat \<Rightarrow> int \<Rightarrow> int \<Rightarrow> fault + nat \<times> nat" where
  "calculateWorkDistribution total_sequences process_rank total_processes =
     (case size_t_div total_sequences (size_t_of_int total_processes) of
        Inl e \<Rightarrow> Inl e
      | Inr base_work \<Rightarrow>
          (case size_t_mod total_sequences (size_t_of_int total_processes) of
             Inl e \<Rightarrow> Inl e
           | Inr extra_work \<Rightarrow>
               (let start_idx =
                      wrap64 (wrap64 (size_t_of_int process_rank * base_work) +
                              min (size_t_of_int process_rank) extra_work);
                    count =
                      wrap64 (base_work +
                              (if process_rank < int_of_size_t extra_work then 1 else 0))
                in Inr (start_idx, count))))"

text \<open>The slice of every rank \<open>0 .. P - 1\<close>, in rank order.\<close>

definition allWorkDistributions :: "nat \<Rightarrow> nat \<Rightarrow> (fault + nat \<times> nat) list" where
  "allWorkDistributions N P =
     map (\<lambda>r. calculateWorkDistribution N (int r) (int P)) [0..<P]"

text \<open>
  The closed form of a slice, and what it means for a list of slices to tile
  \<open>[s, e)\<close> in order: each one starts where the one before it ended.
\<close>

definition slice_formula :: "nat \<Rightarrow> nat \<Rightarrow> nat \<Rightarrow> nat \<times> nat" where
  "slice_formula N P r =
     (r * (N div P) + min r (N mod P), N div P + (if r < N mod P then 1 else 0))"

fun contiguous :: "(nat \<times> nat) list \<Rightarrow> nat \<Rightarrow> nat \<Rightarrow> bool" where
  "contiguous [] s e = (s = e)"
| "contiguous ((a, c) # xs) s e = (a = s \<and> contiguous xs (s + c) e)"

section \<open>The IUPAC table (\<open>iupac_codes.h\<close>, \<open>iupac_codes.cpp\<close>)\<close>

text \<open>
  \<^verbatim>\<open>
  using nucleotide_set = std::array<char, 4>;
  using iupac_map_type = std::array<nucleotide_set, 256>;
  iupac_map_type iupac_map_;
  std::array<bool, 256> valid_codes_;
  \<close>
  Both arrays are indexed by \<open>static_cast<unsigned char>(code)\<close>, so every \<open>char\<close> is a
  valid index: they are functions on \<open>char\<close>. A \<open>nucleotide_set\<close> is a list of four
  characters, unused places holding the zero character.
\<close>

record IUPACCodes =
  iupac_map :: "char \<Rightarrow> char list"
  valid_codes :: "char \<Rightarrow> bool"

definition NUL :: char where
  "NUL = CHR 0x00"

text \<open>
  \<open>std::toupper\<close> in the default \<open>"C"\<close> locale: the letters \<open>a .. z\<close> go to
  \<open>A .. Z\<close>, every other character is returned as it is (the C library's table also
  covers the negative values a \<open>char\<close> with the high bit set converts to).
\<close>

definition toupper :: "char \<Rightarrow> char" where
  "toupper c =
     (let n = (of_char c :: nat)
      in if 97 \<le> n \<and> n \<le> 122 then char_of (n - 32) else c)"

text \<open>
  \<^verbatim>\<open>
  constexpr void IUPACCodes::addMapping(char iupac_code,
                         std::initializer_list<char> nucleotides) noexcept {
    const auto index = static_cast<unsigned char>(iupac_code);
    valid_codes_[index] = true;
    auto &mapping = iupac_map_[index];
    size_t i = 0;
    for (const auto &nucleotide : nucleotides) {
      if (i < mapping.size()) {
        mapping[i++] = nucleotide;
      }
    }
  }
  \<close>
\<close>

fun write_mapping :: "char list \<Rightarrow> nat \<Rightarrow> char list \<Rightarrow> char list" where
  "write_mapping mapping i [] = mapping"
| "write_mapping mapping i (nucleotide # rest) =
     (if i < length mapping
      then write_mapping (mapping[i := nucleotide]) (i + 1) rest
      else write_mapping mapping i rest)"

definition addMapping :: "char \<Rightarrow> char list \<Rightarrow> IUPACCodes \<Rightarrow> IUPACCodes" where
  "addMapping iupac_code nucleotides this =
     this\<lparr> valid_codes := (valid_codes this)(iupac_code := True),
           iupac_map := (iupac_map this)
             (iupac_code := write_mapping (iupac_map this iupac_code) 0 nucleotides) \<rparr>"

text \<open>
  \<open>initializeIUPACMap\<close> fills both arrays (\<open>nucleotide_set{}\<close> is four zero characters)
  and then adds the fifteen codes in this order; the constructor only calls it, and
  \<open>getInstance\<close> returns the one object so constructed.
\<close>

definition initializeIUPACMap :: IUPACCodes where
  "initializeIUPACMap =
     (addMapping (CHR ''N'') ''ATGC'' \<circ>
      addMapping (CHR ''V'') ''ACG'' \<circ>
      addMapping (CHR ''H'') ''ACT'' \<circ>
      addMapping (CHR ''D'') ''AGT'' \<circ>
      addMapping (CHR ''B'') ''CGT'' \<circ>
      addMapping (CHR ''M'') ''AC'' \<circ>
      addMapping (CHR ''K'') ''GT'' \<circ>
      addMapping (CHR ''W'') ''AT'' \<circ>
      addMapping (CHR ''S'') ''GC'' \<circ>
      addMapping (CHR ''Y'') ''TC'' \<circ>
      addMapping (CHR ''R'') ''AG'' \<circ>
      addMapping (CHR ''C'') ''C'' \<circ>
      addMapping (CHR ''G'') ''G'' \<circ>
      addMapping (CHR ''T'') ''T'' \<circ>
      addMapping (CHR ''A'') ''A'')
       \<lparr> iupac_map = (\<lambda>_. [NUL, NUL, NUL, NUL]), valid_codes = (\<lambda>_. False) \<rparr>"

definition getInstance :: IUPACCodes where
  "getInstance = initializeIUPACMap"

text \<open>
  \<^verbatim>\<open>
  bool isValidIUPACCode(char code) const noexcept {
    char upper_code = std::toupper(code);
    return valid_codes_[static_cast<unsigned char>(upper_code)];
  }
  std::vector<char> getNucleotides(char code) const noexcept {
    char upper_code = std::toupper(code);
    if (!isValidIUPACCode(upper_code)) { return {}; }
    const auto &nucleotides = iupac_map_[static_cast<unsigned char>(upper_code)];
    std::vector<char> result;
    ...
    for (char nuc : nucleotides) { if (nuc != 0) result.push_back(nuc); }
    return result;
  }
  bool matches(char nucleotide, char iupac_code) const noexcept {
    char upper_nucleotide = std::toupper(nucleotide);
    char upper_iupac_code = std::toupper(iupac_code);
    if (!isValidIUPACCode(upper_iupac_code)) return false;
    const auto nucleotides = getNucleotides(upper_iupac_code);
    return std::ranges::find(nucleotides, upper_nucleotide) != nucleotides.end();
  }
  \<close>
\<close>

definition isValidIUPACCode :: "IUPACCodes \<Rightarrow> char \<Rightarrow> bool" where
  "isValidIUPACCode this code = (let upper_code = toupper code in valid_codes this upper_code)"

definition getNucleotides :: "IUPACCodes \<Rightarrow> char \<Rightarrow> char list" where
  "getNucleotides this code =
     (let upper_code = toupper code
      in if \<not> isValidIUPACCode this upper_code then []
         else filter (\<lambda>nuc. nuc \<noteq> NUL) (iupac_map this upper_code))"

definition matches :: "IUPACCodes \<Rightarrow> char \<Rightarrow> char \<Rightarrow> bool" where
  "matches this nucleotide iupac_code =
     (let upper_nucleotide = toupper nucleotide;
          upper_iupac_code = toupper iupac_code
      in if \<not> isValidIUPACCode this upper_iupac_code then False
         else upper_nucleotide \<in> set (getNucleotides this upper_iupac_code))"


section \<open>Matching a motif (\<open>iupac_codes.cpp\<close>)\<close>

text \<open>
  \<open>operator[]\<close> of \<open>string_view\<close>, \<open>string\<close> and \<open>vector\<close> does not check its index;
  reading at or past the length has no defined result.
\<close>

definition subscript :: "'a list \<Rightarrow> nat \<Rightarrow> fault + 'a" where
  "subscript xs i = (if i < length xs then Inr (xs ! i) else Inl OutOfBounds)"

text \<open>
  \<open>std::ranges::all_of\<close> over an index range: the predicate is called on the indices in
  order and the call returns at the first index where it is false.
\<close>

fun all_of :: "(nat \<Rightarrow> fault + bool) \<Rightarrow> nat list \<Rightarrow> fault + bool" where
  "all_of pred [] = Inr True"
| "all_of pred (i # rest) =
     (case pred i of
        Inl e \<Rightarrow> Inl e
      | Inr b \<Rightarrow> if b then all_of pred rest else Inr False)"

text \<open>
  \<^verbatim>\<open>
  bool IUPACCodes::matchesMotif(std::string_view sequence, std::string_view motif,
                                size_t start_pos) const noexcept {
    if (start_pos + motif.length() > sequence.length()) {
      return false;
    }
    return std::ranges::all_of(
        std::views::iota(0uz, motif.length()),
        [&](size_t i) { return matches(sequence[start_pos + i], motif[i]); });
  }
  \<close>
  \<open>start_pos\<close>, the lengths and \<open>i\<close> are \<open>size_t\<close>: both sums are taken modulo \<open>2 ^ 64\<close>.
\<close>

definition matchesMotif :: "IUPACCodes \<Rightarrow> string \<Rightarrow> string \<Rightarrow> nat \<Rightarrow> fault + bool" where
  "matchesMotif this sequence motif start_pos =
     (if wrap64 (start_pos + length motif) > length sequence then Inr False
      else all_of
             (\<lambda>i. case subscript sequence (wrap64 (start_pos + i)) of
                     Inl e \<Rightarrow> Inl e
                   | Inr s \<Rightarrow>
                       (case subscript motif i of
                          Inl e \<Rightarrow> Inl e
                        | Inr m \<Rightarrow> Inr (matches this s m)))
             [0..<length motif])"

text \<open>
  A filtered range copied through a \<open>back_inserter\<close>: the elements for which the
  predicate holds, in the order of the range.
\<close>

fun copy_filter :: "('a \<Rightarrow> fault + bool) \<Rightarrow> 'a list \<Rightarrow> fault + 'a list" where
  "copy_filter pred [] = Inr []"
| "copy_filter pred (x # rest) =
     (case pred x of
        Inl e \<Rightarrow> Inl e
      | Inr b \<Rightarrow>
          (case copy_filter pred rest of
             Inl e \<Rightarrow> Inl e
           | Inr out \<Rightarrow> Inr (if b then x # out else out)))"

text \<open>
  \<^verbatim>\<open>
  std::vector<size_t> IUPACCodes::findMotifMatches(std::string_view sequence,
                                                   std::string_view motif) const {
    if (sequence.length() < motif.length()) { return {}; }
    const size_t max_pos = sequence.length() - motif.length();
    std::vector<size_t> matches;
    auto match_positions =
        std::views::iota(0uz, max_pos + 1) | std::views::filter([&](size_t pos) {
          return matchesMotif(sequence, motif, pos);
        });
    std::ranges::copy(match_positions, std::back_inserter(matches));
    return matches;
  }
  \<close>
\<close>

definition findMotifMatches :: "IUPACCodes \<Rightarrow> string \<Rightarrow> string \<Rightarrow> fault + nat list" where
  "findMotifMatches this sequence motif =
     (if length sequence < length motif then Inr []
      else let max_pos = length sequence - length motif
           in copy_filter (matchesMotif this sequence motif) [0..<wrap64 (max_pos + 1)])"

text \<open>
  The offsets the scan is meant to report: those of \<open>0 .. |sequence| - |motif|\<close> at which
  \<open>matchesMotif\<close> returns true, ascending; none when the motif is the longer string.
\<close>

definition matching_offsets :: "IUPACCodes \<Rightarrow> string \<Rightarrow> string \<Rightarrow> nat list" where
  "matching_offsets this seq motif =
     (if length motif \<le> length seq
      then filter (\<lambda>pos. matchesMotif this seq motif pos = Inr True)
             [0..<length seq - length motif + 1]
      else [])"


section \<open>Data of the matcher (\<open>common.h\<close>)\<close>

text \<open>
  \<^verbatim>\<open>
  struct ChIPSequence { std::string id; std::string sequence;
                        std::vector<std::string> metadata; ... };
  struct Motif        { std::string pattern; double score1, score2, score3; ... };
  struct MotifMatch   { size_t sequence_index; size_t position;
                        std::string matched_sequence; ... };
  struct MotifResult  { std::string motif_pattern; size_t match_count;
                        double frequency; std::vector<MotifMatch> matches; ... };
  \<close>
  The field \<open>id\<close> is \<open>id'\<close> and the field \<open>matches\<close> is \<open>matches'\<close> here, to keep them
  apart from the identity function and from \<open>IUPACCodes::matches\<close>. The type \<open>double\<close>
  is a type parameter \<open>'d\<close>: the functions below only store and copy doubles, except
  \<open>calculateFrequency\<close>, which takes the three operations it uses as a parameter.
\<close>

record ChIPSequence =
  id' :: string
  sequence :: string
  metadata :: "string list"

record 'd Motif =
  pattern :: string
  score1 :: 'd
  score2 :: 'd
  score3 :: 'd

record MotifMatch =
  sequence_index :: nat
  position :: nat
  matched_sequence :: string

record 'd MotifResult =
  motif_pattern :: string
  match_count :: nat
  frequency :: 'd
  matches' :: "MotifMatch list"

record 'd double_ops =
  dbl_zero :: 'd                        \<comment> \<open>the literal \<open>0.0\<close>\<close>
  dbl_of_size_t :: "nat \<Rightarrow> 'd"              \<comment> \<open>\<open>static_cast<double>(size_t)\<close>\<close>
  dbl_div :: "'d \<Rightarrow> 'd \<Rightarrow> 'd"            \<comment> \<open>\<open>/\<close> on \<open>double\<close>\<close>

text \<open>
  \<^verbatim>\<open>
  MotifResult(std::string_view pattern)
      : motif_pattern(pattern), match_count(0), frequency(0.0) {}

  void calculateFrequency(size_t total_sequences) noexcept {
    if (total_sequences > 0) {
      frequency = static_cast<double>(match_count) /
                  static_cast<double>(total_sequences);
    } else {
      frequency = 0.0;
    }
  }
  \<close>
\<close>

definition MotifResult_of_pattern :: "'d double_ops \<Rightarrow> string \<Rightarrow> 'd MotifResult" where
  "MotifResult_of_pattern fp pat =
     \<lparr> motif_pattern = pat, match_count = 0, frequency = dbl_zero fp, matches' = [] \<rparr>"

definition calculateFrequency :: "'d double_ops \<Rightarrow> nat \<Rightarrow> 'd MotifResult \<Rightarrow> 'd MotifResult" where
  "calculateFrequency fp total_sequences result =
     (if total_sequences > 0
      then result\<lparr> frequency :=
             dbl_div fp (dbl_of_size_t fp (match_count result)) (dbl_of_size_t fp total_sequences) \<rparr>
      else result\<lparr> frequency := dbl_zero fp \<rparr>)"


section \<open>Scanning sequences (\<open>motif_finder.cpp\<close>)\<close>

text \<open>
  \<open>std::string::substr(pos, n)\<close> throws \<open>std::out_of_range\<close> when \<open>pos\<close> is past the
  end, and otherwise returns the \<open>min n (size - pos)\<close> characters from \<open>pos\<close> on.
\<close>

definition substr :: "string \<Rightarrow> nat \<Rightarrow> nat \<Rightarrow> fault + string" where
  "substr s pos n = (if pos > length s then Inl OutOfRange else Inr (take n (drop pos s)))"

text \<open>A transformed range copied through a \<open>back_inserter\<close>, element by element.\<close>

fun copy_transform :: "('a \<Rightarrow> fault + 'b) \<Rightarrow> 'a list \<Rightarrow> fault + 'b list" where
  "copy_transform f [] = Inr []"
| "copy_transform f (x # rest) =
     (case f x of
        Inl e \<Rightarrow> Inl e
      | Inr y \<Rightarrow>
          (case copy_transform f rest of
             Inl e \<Rightarrow> Inl e
           | Inr out \<Rightarrow> Inr (y # out)))"

text \<open>
  \<^verbatim>\<open>
  std::vector<MotifMatch>
  MotifFinder::findMotifInSequence(const ChIPSequence &sequence,
                                   const Motif &motif, size_t sequence_index) {
    if (sequence.sequence.length() < motif.pattern.length()) { return {}; }
    auto match_positions =
        iupac_codes_.findMotifMatches(sequence.sequence, motif.pattern);
    std::vector<MotifMatch> matches;
    auto match_objects =
        match_positions | std::views::transform([&](size_t pos) {
          std::string matched_sequence =
              sequence.sequence.substr(pos, motif.pattern.length());
          return MotifMatch(sequence_index, pos, matched_sequence);
        });
    std::ranges::copy(match_objects, std::back_inserter(matches));
    return matches;
  }
  \<close>
  The \<open>MotifFinder\<close> holds a reference \<open>iupac_codes_\<close> to the table; it is the first
  argument of the functions below.
\<close>

definition findMotifInSequence ::
  "IUPACCodes \<Rightarrow> ChIPSequence \<Rightarrow> 'd Motif \<Rightarrow> nat \<Rightarrow> fault + MotifMatch list" where
  "findMotifInSequence iupac_codes seq motif seq_index =
     (if length (sequence seq) < length (pattern motif) then Inr []
      else case findMotifMatches iupac_codes (sequence seq) (pattern motif) of
             Inl e \<Rightarrow> Inl e
           | Inr match_positions \<Rightarrow>
               copy_transform
                 (\<lambda>pos. case substr (sequence seq) pos (length (pattern motif)) of
                          Inl e \<Rightarrow> Inl e
                        | Inr matched \<Rightarrow>
                            Inr \<lparr> sequence_index = seq_index, position = pos,
                                  matched_sequence = matched \<rparr>)
                 match_positions)"

text \<open>
  \<^verbatim>\<open>
  MotifResult
  MotifFinder::findSingleMotif(std::span<const ChIPSequence> sequences,
                               const Motif &motif) {
    Timer timer;
    MotifResult result(motif.pattern);
    auto sequence_indices = std::views::iota(0uz, sequences.size());
    for (const auto &[i, sequence] :
         std::views::zip(sequence_indices, sequences)) {
      auto matches = findMotifInSequence(sequence, motif, i);
      if (!matches.empty()) {
        result.match_count++;
        result.matches.push_back(std::move(matches[0]));
      }
    }
    result.calculateFrequency(sequences.size());
    double motif_time = timer.elapsed();
    updatePerformanceStats("find_single_motif", motif_time);
    return result;
  }
  \<close>
  The loop is \<open>scan_sequences\<close>, carrying \<open>result\<close>. No value computed here depends on
  the timer or the timing table, so the returned result is given without them; the
  write to \<open>performance_stats_\<close> that ends every call is accounted for where it
  matters, in the thread-parallel batch below.
\<close>

fun scan_sequences ::
  "IUPACCodes \<Rightarrow> 'd Motif \<Rightarrow> (nat \<times> ChIPSequence) list \<Rightarrow> 'd MotifResult
     \<Rightarrow> fault + 'd MotifResult" where
  "scan_sequences iupac_codes motif [] result = Inr result"
| "scan_sequences iupac_codes motif ((i, seq) # rest) result =
     (case findMotifInSequence iupac_codes seq motif i of
        Inl e \<Rightarrow> Inl e
      | Inr [] \<Rightarrow> scan_sequences iupac_codes motif rest result
      | Inr (first # _) \<Rightarrow>
          scan_sequences iupac_codes motif rest
            (result\<lparr> match_count := wrap64 (match_count result + 1),
                     matches' := matches' result @ [first] \<rparr>))"

definition findSingleMotif ::
  "'d double_ops \<Rightarrow> IUPACCodes \<Rightarrow> ChIPSequence list \<Rightarrow> 'd Motif \<Rightarrow> fault + 'd MotifResult" where
  "findSingleMotif fp iupac_codes sequences motif =
     (let sequence_indices = [0..<length sequences]
      in case scan_sequences iupac_codes motif (zip sequence_indices sequences)
                (MotifResult_of_pattern fp (pattern motif)) of
           Inl e \<Rightarrow> Inl e
         | Inr result \<Rightarrow> Inr (calculateFrequency fp (length sequences) result))"

text \<open>
  What the aggregation is meant to produce, stated on the sequences paired with their
  indices: for each sequence in input order that has at least one matching offset, the
  one record of its first (least) matching offset. \<open>has_occurrence\<close> says that a
  sequence contains the motif somewhere.
\<close>

fun first_matches :: "IUPACCodes \<Rightarrow> string \<Rightarrow> (nat \<times> ChIPSequence) list \<Rightarrow> MotifMatch list" where
  "first_matches this pat [] = []"
| "first_matches this pat ((i, seq) # rest) =
     (case matching_offsets this (sequence seq) pat of
        [] \<Rightarrow> first_matches this pat rest
      | pos # _ \<Rightarrow>
          \<lparr> sequence_index = i, position = pos,
            matched_sequence = take (length pat) (drop pos (sequence seq)) \<rparr>
          # first_matches this pat rest)"

definition has_occurrence :: "IUPACCodes \<Rightarrow> string \<Rightarrow> ChIPSequence \<Rightarrow> bool" where
  "has_occurrence this pat seq =
     (\<exists>pos. pos + length pat \<le> length (sequence seq) \<and>
            matchesMotif this (sequence seq) pat pos = Inr True)"

text \<open>
  \<open>processSingleMotif\<close> has the body of \<open>findSingleMotif\<close> word for word; only the name
  under which it stores its time differs.
\<close>

definition processSingleMotif ::
  "'d double_ops \<Rightarrow> IUPACCodes \<Rightarrow> ChIPSequence list \<Rightarrow> 'd Motif \<Rightarrow> fault + 'd MotifResult" where
  "processSingleMotif fp iupac_codes sequences motif =
     (let sequence_indices = [0..<length sequences]
      in case scan_sequences iupac_codes motif (zip sequence_indices sequences)
                (MotifResult_of_pattern fp (pattern motif)) of
           Inl e \<Rightarrow> Inl e
         | Inr result \<Rightarrow> Inr (calculateFrequency fp (length sequences) result))"

text \<open>
  \<^verbatim>\<open>
  std::vector<MotifResult>
  MotifFinder::findMotifs(std::span<const ChIPSequence> sequences,
                          std::span<const Motif> motifs) {
    ...
    auto motif_results = motifs | std::views::transform([&](const Motif &motif) {
                           return processSingleMotif(sequences, motif);
                         });
    std::ranges::copy(motif_results, std::back_inserter(results));
    ...
    return results;
  }
  \<close>
\<close>

definition findMotifs ::
  "'d double_ops \<Rightarrow> IUPACCodes \<Rightarrow> ChIPSequence list \<Rightarrow> 'd Motif list
     \<Rightarrow> fault + 'd MotifResult list" where
  "findMotifs fp iupac_codes sequences motifs =
     copy_transform (processSingleMotif fp iupac_codes sequences) motifs"


section \<open>The thread-parallel batch (\<open>parallel_processor.cpp\<close>)\<close>

text \<open>
  \<^verbatim>\<open>
  std::vector<MotifResult> results;
  #pragma omp parallel
  {
    std::vector<MotifResult> local_results;
  #pragma omp for schedule(dynamic)
    for (size_t i = 0; i < motifs.size(); ++i) {
      MotifResult result = motif_finder_->findSingleMotif(sequences, motifs[i]);
      local_results.push_back(result);
    }
  #pragma omp critical
    { results.insert(results.end(), local_results.begin(), local_results.end()); }
  }
  return results;
  \<close>
  What the OpenMP runtime decides is a parameter, the \<open>schedule\<close>: for each thread of
  the team, in the order in which the threads pass the critical section, the loop
  indices that thread was handed, in the order it ran them. The work-sharing loop hands
  every index of \<open>0 ..< motifs.size()\<close> to exactly one thread: that is
  \<open>valid_schedule\<close>.

  All threads call \<open>findSingleMotif\<close> on the one \<open>MotifFinder\<close> behind
  \<open>motif_finder_\<close>, and every call ends with
  \<^verbatim>\<open>
  updatePerformanceStats("find_single_motif", motif_time);
      // performance_stats_[std::string(operation)] = time_seconds;
  \<close>
  an assignment through \<open>operator[]\<close> of the \<open>std::unordered_map\<close> member
  \<open>performance_stats_\<close> of that object. The call stands in the loop body, outside the
  critical section, which only covers the later \<open>results.insert\<close>; nothing orders the
  loop bodies of different threads before the barrier that ends the loop. A thread
  therefore produces two things: its \<open>local_results\<close>, and, per iteration, one write to
  the shared map, recorded by its key. Writes to the one map by two threads with no
  ordering between them are a data race, and the behaviour of the program is then
  undefined: that is \<open>data_race\<close>, and it holds as soon as two threads of the team each
  run an iteration. Without a race the critical sections, being mutually exclusive,
  append the local lists one after the other.
\<close>

definition findSingleMotif_stat :: string where
  "findSingleMotif_stat = ''find_single_motif''"

definition thread_local_results ::
  "'d double_ops \<Rightarrow> IUPACCodes \<Rightarrow> ChIPSequence list \<Rightarrow> 'd Motif list \<Rightarrow> nat list
     \<Rightarrow> fault + 'd MotifResult list \<times> string list" where
  "thread_local_results fp iupac_codes sequences motifs indices =
     (case copy_transform
             (\<lambda>i. case subscript motifs i of
                     Inl e \<Rightarrow> Inl e
                   | Inr motif \<Rightarrow>
                       (case findSingleMotif fp iupac_codes sequences motif of
                          Inl e \<Rightarrow> Inl e
                        | Inr result \<Rightarrow> Inr (result, findSingleMotif_stat)))
             indices of
        Inl e \<Rightarrow> Inl e
      | Inr iterations \<Rightarrow> Inr (map fst iterations, map snd iterations))"

definition data_race :: "string list list \<Rightarrow> bool" where
  "data_race stat_writes = (1 < length (filter (\<lambda>writes. writes \<noteq> []) stat_writes))"

definition processMotifsParallel ::
  "'d double_ops \<Rightarrow> IUPACCodes \<Rightarrow> nat list list \<Rightarrow> ChIPSequence list \<Rightarrow> 'd Motif list
     \<Rightarrow> fault + 'd MotifResult list" where
  "processMotifsParallel fp iupac_codes schedule sequences motifs =
     (case copy_transform (thread_local_results fp iupac_codes sequences motifs) schedule of
        Inl e \<Rightarrow> Inl e
      | Inr threads \<Rightarrow>
          if data_race (map snd threads) then Inl DataRace
          else Inr (concat (map fst threads)))"

definition valid_schedule :: "nat list list \<Rightarrow> nat \<Rightarrow> bool" where
  "valid_schedule schedule n = (mset (concat schedule) = mset [0..<n])"

section \<open>Messages (\<open>mpi_manager.cpp\<close>)\<close>

text \<open>
  Every \<open>MPI_Send\<close>, \<open>MPI_Recv\<close> and \<open>MPI_Bcast\<close> of the source names an MPI datatype
  and a count. A message is its payload, tagged with that datatype: one
  \<open>unsigned long\<close>, one \<open>int\<close>, a run of \<open>char\<close>, or a run of \<open>double\<close>. On the LP64
  target an \<open>MPI_UNSIGNED_LONG\<close> is 64 bits wide and an \<open>MPI_INT\<close> 32 bits.
\<close>

datatype 'd payload =
    MPI_UNSIGNED_LONG nat
  | MPI_INT int
  | MPI_CHAR string
  | MPI_DOUBLE "'d list"

fun integer_width :: "'d payload \<Rightarrow> nat option" where
  "integer_width (MPI_UNSIGNED_LONG _) = Some 64"
| "integer_width (MPI_INT _) = Some 32"
| "integer_width (MPI_CHAR _) = None"
| "integer_width (MPI_DOUBLE _) = None"

text \<open>
  A point-to-point send is recorded as (peer, tag, payload). The messages one rank sends
  to another arrive in the order sent; \<open>channel\<close> selects them, keeping tag and payload.
\<close>

type_synonym 'd message = "nat \<times> 'd payload"
type_synonym 'd send = "nat \<times> 'd message"

definition channel :: "nat \<Rightarrow> 'd send list \<Rightarrow> 'd message list" where
  "channel peer sends = map snd (filter (\<lambda>m. fst m = peer) sends)"

text \<open>
  \<open>MPI_Recv(buf, count, type, source, tag, ...)\<close> takes the earliest pending message of
  that source with that tag and waits for ever when there is none. Receiving with
  another datatype than the message was sent with is erroneous, and so is a message
  longer than \<open>count\<close>. A negative \<open>count\<close> is refused with \<open>MPI_ERR_COUNT\<close>. The default
  error handler aborts the run, so each of these is a fault.
\<close>

definition recv :: "nat \<Rightarrow> 'd message list \<Rightarrow> fault + 'd payload \<times> 'd message list" where
  "recv tag queue =
     (case List.extract (\<lambda>m. fst m = tag) queue of
        None \<Rightarrow> Inl Blocked
      | Some (before, m, after) \<Rightarrow> Inr (snd m, before @ after))"

definition recv_unsigned_long :: "nat \<Rightarrow> 'd message list \<Rightarrow> fault + nat \<times> 'd message list" where
  "recv_unsigned_long tag queue =
     (case recv tag queue of
        Inl e \<Rightarrow> Inl e
      | Inr (MPI_UNSIGNED_LONG v, queue') \<Rightarrow> Inr (v, queue')
      | Inr (_, queue') \<Rightarrow> Inl MPI_ERR_TYPE)"

definition recv_int :: "nat \<Rightarrow> 'd message list \<Rightarrow> fault + int \<times> 'd message list" where
  "recv_int tag queue =
     (case recv tag queue of
        Inl e \<Rightarrow> Inl e
      | Inr (MPI_INT v, queue') \<Rightarrow> Inr (v, queue')
      | Inr (_, queue') \<Rightarrow> Inl MPI_ERR_TYPE)"

text \<open>
  Receiving \<open>count\<close> elements into a buffer overwrites as many elements as the message
  has and leaves the rest of the buffer as it was.
\<close>

definition fill :: "'a list \<Rightarrow> 'a list \<Rightarrow> 'a list" where
  "fill buf received = received @ drop (length received) buf"

definition recv_chars ::
  "nat \<Rightarrow> int \<Rightarrow> string \<Rightarrow> 'd message list \<Rightarrow> fault + string \<times> 'd message list" where
  "recv_chars tag cnt buf queue =
     (if cnt < 0 then Inl MPI_ERR_COUNT
      else case recv tag queue of
             Inl e \<Rightarrow> Inl e
           | Inr (MPI_CHAR cs, queue') \<Rightarrow>
               if int (length cs) > cnt then Inl MPI_ERR_TRUNCATE
               else Inr (fill buf cs, queue')
           | Inr (_, queue') \<Rightarrow> Inl MPI_ERR_TYPE)"

definition recv_doubles ::
  "nat \<Rightarrow> nat \<Rightarrow> 'd list \<Rightarrow> 'd message list \<Rightarrow> fault + 'd list \<times> 'd message list" where
  "recv_doubles tag cnt buf queue =
     (case recv tag queue of
        Inl e \<Rightarrow> Inl e
      | Inr (MPI_DOUBLE ds, queue') \<Rightarrow>
          if length ds > cnt then Inl MPI_ERR_TRUNCATE
          else Inr (fill buf ds, queue')
      | Inr (_, queue') \<Rightarrow> Inl MPI_ERR_TYPE)"

text \<open>
  \<open>s.resize(n)\<close>, \<open>v.reserve(n)\<close> and \<open>std::string(n, '\0')\<close> with an \<open>int n\<close>: the
  argument is converted to \<open>size_t\<close>, and a negative \<open>n\<close> becomes a size beyond every
  \<open>max_size()\<close>, so \<open>std::length_error\<close> is thrown. Otherwise the string has \<open>n\<close> zero
  characters.
\<close>

definition zero_string :: "int \<Rightarrow> fault + string" where
  "zero_string n = (if n < 0 then Inl LengthError else Inr (replicate (nat n) NUL))"

text \<open>
  The sender's side of a string, as the source writes it three times over:
  \<^verbatim>\<open>
  int id_len = seq.id.length();
  MPI_Send(&id_len, 1, MPI_INT, dest, 2, MPI_COMM_WORLD);
  MPI_Send(seq.id.c_str(), id_len, MPI_CHAR, dest, 3, MPI_COMM_WORLD);
  \<close>
  The length is narrowed from \<open>size_t\<close> to \<open>int\<close>; the second send transmits that many
  characters of the string, and is refused when the number is negative.
\<close>

definition send_string :: "nat \<Rightarrow> nat \<Rightarrow> string \<Rightarrow> fault + 'd message list" where
  "send_string len_tag data_tag s =
     (let len = int_of_size_t (length s)
      in if len < 0 then Inl MPI_ERR_COUNT
         else Inr [(len_tag, MPI_INT len), (data_tag, MPI_CHAR (take (nat len) s))])"

text \<open>And the receiver's side:
  \<^verbatim>\<open>
  int id_len;
  MPI_Recv(&id_len, 1, MPI_INT, 0, 2, MPI_COMM_WORLD, MPI_STATUS_IGNORE);
  seq.id.resize(id_len);
  MPI_Recv(&seq.id[0], id_len, MPI_CHAR, 0, 3, MPI_COMM_WORLD, MPI_STATUS_IGNORE);
  \<close>
\<close>

definition recv_string :: "nat \<Rightarrow> nat \<Rightarrow> 'd message list \<Rightarrow> fault + string \<times> 'd message list" where
  "recv_string len_tag data_tag queue =
     (case recv_int len_tag queue of
        Inl e \<Rightarrow> Inl e
      | Inr (len, queue1) \<Rightarrow>
          (case zero_string len of
             Inl e \<Rightarrow> Inl e
           | Inr buf \<Rightarrow> recv_chars data_tag len buf queue1))"

text \<open>
  The two loop shapes of this file, with a body that may fault: one over the elements of
  a list, appending what each iteration produces; one that runs a given number of times
  on the queue of pending messages and collects what each iteration decodes.
\<close>

fun append_each :: "('a \<Rightarrow> fault + 'm list) \<Rightarrow> 'a list \<Rightarrow> fault + 'm list" where
  "append_each f [] = Inr []"
| "append_each f (x # rest) =
     (case f x of
        Inl e \<Rightarrow> Inl e
      | Inr ms \<Rightarrow>
          (case append_each f rest of
             Inl e \<Rightarrow> Inl e
           | Inr later \<Rightarrow> Inr (ms @ later)))"

fun recv_times :: "nat \<Rightarrow> ('q \<Rightarrow> fault + 'a \<times> 'q) \<Rightarrow> 'q \<Rightarrow> fault + 'a list \<times> 'q" where
  "recv_times 0 f queue = Inr ([], queue)"
| "recv_times (Suc n) f queue =
     (case f queue of
        Inl e \<Rightarrow> Inl e
      | Inr (x, queue1) \<Rightarrow>
          (case recv_times n f queue1 of
             Inl e \<Rightarrow> Inl e
           | Inr (xs, queue2) \<Rightarrow> Inr (x # xs, queue2)))"


section \<open>Scatter of the sequences (\<open>MPIManager::distributeSequences\<close>)\<close>

text \<open>
  The object holds \<open>rank_\<close> and \<open>size_\<close>; \<open>isMaster()\<close> is \<open>rank_ == 0\<close>. The
  communication statistics it also keeps are left out: no message depends on them.

  One sequence as the master sends it (tags 2 to 8):
  \<^verbatim>\<open>
  int id_len = seq.id.length();                 MPI_Send(&id_len ... 2);  MPI_Send(id ... 3);
  int seq_len = seq.sequence.length();          MPI_Send(&seq_len ... 4); MPI_Send(sequence ... 5);
  int meta_count = seq.metadata.size();         MPI_Send(&meta_count, 1, MPI_INT, dest, 6, ...);
  for (const auto &meta : seq.metadata) {
    int meta_len = meta.length();               MPI_Send(&meta_len ... 7); MPI_Send(meta ... 8);
  }
  \<close>
\<close>

definition send_sequence :: "ChIPSequence \<Rightarrow> fault + 'd message list" where
  "send_sequence seq =
     (case send_string 2 3 (id' seq) of
        Inl e \<Rightarrow> Inl e
      | Inr id_msgs \<Rightarrow>
          (case send_string 4 5 (sequence seq) of
             Inl e \<Rightarrow> Inl e
           | Inr seq_msgs \<Rightarrow>
               (let meta_count = int_of_size_t (length (metadata seq))
                in case append_each (send_string 7 8) (metadata seq) of
                     Inl e \<Rightarrow> Inl e
                   | Inr meta_msgs \<Rightarrow>
                       Inr (id_msgs @ seq_msgs @ [(6, MPI_INT meta_count)] @ meta_msgs))))"

text \<open>
  What the master sends to one destination in its second loop:
  \<^verbatim>\<open>
  auto work_dist = calculateWorkDistribution(total_sequences, dest, size_);
  size_t start_idx = work_dist.first;
  size_t count = work_dist.second;
  MPI_Send(&count, 1, MPI_UNSIGNED_LONG, dest, 1, MPI_COMM_WORLD);
  for (size_t i = 0; i < count; ++i) {
    const auto &seq = all_sequences[start_idx + i];
    ...
  }
  \<close>
\<close>

definition send_slice :: "ChIPSequence list \<Rightarrow> int \<Rightarrow> nat \<Rightarrow> fault + 'd send list" where
  "send_slice all_sequences size' dest =
     (let total_sequences = length all_sequences
      in case calculateWorkDistribution total_sequences (int dest) size' of
           Inl e \<Rightarrow> Inl e
         | Inr (start_idx, cnt) \<Rightarrow>
             (case append_each
                     (\<lambda>i. case subscript all_sequences (wrap64 (start_idx + i)) of
                             Inl e \<Rightarrow> Inl e
                           | Inr seq \<Rightarrow> send_sequence seq)
                     [0..<cnt] of
                Inl e \<Rightarrow> Inl e
              | Inr msgs \<Rightarrow>
                  Inr (map (Pair dest) ((1, MPI_UNSIGNED_LONG cnt) # msgs))))"

text \<open>
  The master's branch: the total to every other rank (tag 0), then the slices, then its
  own slice, copied from \<open>all_sequences.begin() + start_idx\<close> up to
  \<open>all_sequences.begin() + start_idx + count\<close>. It returns what it sent and its local
  sequences.
\<close>

definition distributeSequences_master ::
  "int \<Rightarrow> ChIPSequence list \<Rightarrow> fault + 'd send list \<times> ChIPSequence list" where
  "distributeSequences_master size' all_sequences =
     (let total_sequences = length all_sequences;
          totals = map (\<lambda>dest. (dest, (0, MPI_UNSIGNED_LONG total_sequences))) [1..<nat size']
      in case append_each (send_slice all_sequences size') [1..<nat size'] of
           Inl e \<Rightarrow> Inl e
         | Inr slices \<Rightarrow>
             (case calculateWorkDistribution total_sequences 0 size' of
                Inl e \<Rightarrow> Inl e
              | Inr (start_idx, cnt) \<Rightarrow>
                  if start_idx + cnt \<le> length all_sequences
                  then Inr (totals @ slices, take cnt (drop start_idx all_sequences))
                  else Inl OutOfBounds))"

text \<open>
  A worker's branch, reading the messages the master sent to it:
  \<^verbatim>\<open>
  size_t total_sequences;  MPI_Recv(&total_sequences, 1, MPI_UNSIGNED_LONG, 0, 0, ...);
  size_t count;            MPI_Recv(&count, 1, MPI_UNSIGNED_LONG, 0, 1, ...);
  local_sequences.reserve(count);
  for (size_t i = 0; i < count; ++i) {
    ChIPSequence seq;
    ... id (tags 2, 3), sequence (tags 4, 5) ...
    int meta_count;        MPI_Recv(&meta_count, 1, MPI_INT, 0, 6, ...);
    seq.metadata.reserve(meta_count);
    for (int j = 0; j < meta_count; ++j) {
      int meta_len;        MPI_Recv(&meta_len, 1, MPI_INT, 0, 7, ...);
      std::string meta(meta_len, '\0');
      MPI_Recv(&meta[0], meta_len, MPI_CHAR, 0, 8, ...);
      seq.metadata.push_back(meta);
    }
    local_sequences.push_back(seq);
  }
  \<close>
  \<open>reserve\<close> with an \<open>int\<close> argument throws for a negative one, as above;
  \<open>local_sequences.reserve(count)\<close> takes a \<open>size_t\<close> and changes no value, and its
  failure for a count beyond \<open>max_size()\<close> is left out.
\<close>

definition recv_sequence :: "'d message list \<Rightarrow> fault + ChIPSequence \<times> 'd message list" where
  "recv_sequence queue =
     (case recv_string 2 3 queue of
        Inl e \<Rightarrow> Inl e
      | Inr (seq_id, queue1) \<Rightarrow>
          (case recv_string 4 5 queue1 of
             Inl e \<Rightarrow> Inl e
           | Inr (seq_sequence, queue2) \<Rightarrow>
               (case recv_int 6 queue2 of
                  Inl e \<Rightarrow> Inl e
                | Inr (meta_count, queue3) \<Rightarrow>
                    if meta_count < 0 then Inl LengthError
                    else (case recv_times (nat meta_count) (recv_string 7 8) queue3 of
                            Inl e \<Rightarrow> Inl e
                          | Inr (seq_metadata, queue4) \<Rightarrow>
                              Inr (\<lparr> id' = seq_id, sequence = seq_sequence,
                                     metadata = seq_metadata \<rparr>, queue4)))))"

definition distributeSequences_worker :: "'d message list \<Rightarrow> fault + ChIPSequence list" where
  "distributeSequences_worker from_master =
     (case recv_unsigned_long 0 from_master of
        Inl e \<Rightarrow> Inl e
      | Inr (total_sequences, queue1) \<Rightarrow>
          (case recv_unsigned_long 1 queue1 of
             Inl e \<Rightarrow> Inl e
           | Inr (cnt, queue2) \<Rightarrow>
               (case recv_times cnt recv_sequence queue2 of
                  Inl e \<Rightarrow> Inl e
                | Inr (local_sequences, _) \<Rightarrow> Inr local_sequences)))"


section \<open>Broadcast of the motifs (\<open>MPIManager::broadcastMotifs\<close>)\<close>

text \<open>
  \<open>MPI_Bcast\<close> is a collective: the calls of the root and of a receiver are matched in
  the order they are made, so what a receiver reads is the root's sequence of payloads,
  front first. Counts and datatypes of matching calls must agree.
  \<^verbatim>\<open>
  int motif_count = motifs.size();
  MPI_Bcast(&motif_count, 1, MPI_INT, 0, MPI_COMM_WORLD);
  for (const auto &motif : motifs) {
    int pattern_len = motif.pattern.length();
    MPI_Bcast(&pattern_len, 1, MPI_INT, 0, MPI_COMM_WORLD);
    MPI_Bcast(const_cast<char *>(motif.pattern.c_str()), pattern_len, MPI_CHAR, 0, ...);
    double scores[3] = {motif.score1, motif.score2, motif.score3};
    MPI_Bcast(scores, 3, MPI_DOUBLE, 0, MPI_COMM_WORLD);
  }
  received_motifs = motifs;
  \<close>
\<close>

definition bcast_motif :: "'d Motif \<Rightarrow> fault + 'd payload list" where
  "bcast_motif motif =
     (let pattern_len = int_of_size_t (length (pattern motif))
      in if pattern_len < 0 then Inl MPI_ERR_COUNT
         else Inr [MPI_INT pattern_len,
                   MPI_CHAR (take (nat pattern_len) (pattern motif)),
                   MPI_DOUBLE [score1 motif, score2 motif, score3 motif]])"

definition broadcastMotifs_master ::
  "'d Motif list \<Rightarrow> fault + 'd payload list \<times> 'd Motif list" where
  "broadcastMotifs_master motifs =
     (let motif_count = int_of_size_t (length motifs)
      in case append_each bcast_motif motifs of
           Inl e \<Rightarrow> Inl e
         | Inr stream \<Rightarrow> Inr (MPI_INT motif_count # stream, motifs))"

text \<open>
  \<^verbatim>\<open>
  int motif_count;
  MPI_Bcast(&motif_count, 1, MPI_INT, 0, MPI_COMM_WORLD);
  received_motifs.reserve(motif_count);
  for (int i = 0; i < motif_count; ++i) {
    Motif motif;
    int pattern_len;
    MPI_Bcast(&pattern_len, 1, MPI_INT, 0, MPI_COMM_WORLD);
    motif.pattern.resize(pattern_len);
    MPI_Bcast(&motif.pattern[0], pattern_len, MPI_CHAR, 0, MPI_COMM_WORLD);
    double scores[3];
    MPI_Bcast(scores, 3, MPI_DOUBLE, 0, MPI_COMM_WORLD);
    motif.score1 = scores[0]; motif.score2 = scores[1]; motif.score3 = scores[2];
    received_motifs.push_back(motif);
  }
  \<close>
\<close>

definition bcast_int :: "'d payload list \<Rightarrow> fault + int \<times> 'd payload list" where
  "bcast_int stream =
     (case stream of
        [] \<Rightarrow> Inl Blocked
      | MPI_INT v # rest \<Rightarrow> Inr (v, rest)
      | _ # rest \<Rightarrow> Inl MPI_ERR_TYPE)"

definition bcast_chars :: "int \<Rightarrow> 'd payload list \<Rightarrow> fault + string \<times> 'd payload list" where
  "bcast_chars cnt stream =
     (if cnt < 0 then Inl MPI_ERR_COUNT
      else case stream of
             [] \<Rightarrow> Inl Blocked
           | MPI_CHAR cs # rest \<Rightarrow>
               if int (length cs) = cnt then Inr (cs, rest) else Inl MPI_ERR_TRUNCATE
           | _ # rest \<Rightarrow> Inl MPI_ERR_TYPE)"

definition bcast_doubles :: "nat \<Rightarrow> 'd payload list \<Rightarrow> fault + 'd list \<times> 'd payload list" where
  "bcast_doubles cnt stream =
     (case stream of
        [] \<Rightarrow> Inl Blocked
      | MPI_DOUBLE ds # rest \<Rightarrow>
          if length ds = cnt then Inr (ds, rest) else Inl MPI_ERR_TRUNCATE
      | _ # rest \<Rightarrow> Inl MPI_ERR_TYPE)"

definition recv_motif :: "'d payload list \<Rightarrow> fault + 'd Motif \<times> 'd payload list" where
  "recv_motif stream =
     (case bcast_int stream of
        Inl e \<Rightarrow> Inl e
      | Inr (pattern_len, stream1) \<Rightarrow>
          (case zero_string pattern_len of
             Inl e \<Rightarrow> Inl e
           | Inr _ \<Rightarrow>
               (case bcast_chars pattern_len stream1 of
                  Inl e \<Rightarrow> Inl e
                | Inr (pat, stream2) \<Rightarrow>
                    (case bcast_doubles 3 stream2 of
                       Inl e \<Rightarrow> Inl e
                     | Inr (scores, stream3) \<Rightarrow>
                         Inr (\<lparr> pattern = pat, score1 = scores ! 0,
                                score2 = scores ! 1, score3 = scores ! 2 \<rparr>, stream3)))))"

definition broadcastMotifs_worker :: "'d payload list \<Rightarrow> fault + 'd Motif list" where
  "broadcastMotifs_worker stream =
     (case bcast_int stream of
        Inl e \<Rightarrow> Inl e
      | Inr (motif_count, stream1) \<Rightarrow>
          if motif_count < 0 then Inl LengthError
          else (case recv_times (nat motif_count) recv_motif stream1 of
                  Inl e \<Rightarrow> Inl e
                | Inr (received_motifs, _) \<Rightarrow> Inr received_motifs))"


section \<open>Gather of the results (\<open>MPIManager::gatherResults\<close>)\<close>

text \<open>
  A worker sends to rank 0:
  \<^verbatim>\<open>
  int result_count = local_results.size();
  MPI_Send(&result_count, 1, MPI_INT, 0, 0, MPI_COMM_WORLD);
  for (const auto &result : local_results) {
    int pattern_len = result.motif_pattern.length();
    MPI_Send(&pattern_len, 1, MPI_INT, 0, 1, MPI_COMM_WORLD);
    MPI_Send(result.motif_pattern.c_str(), pattern_len, MPI_CHAR, 0, 2, MPI_COMM_WORLD);
    MPI_Send(&result.match_count, 1, MPI_UNSIGNED_LONG, 0, 3, MPI_COMM_WORLD);
    MPI_Send(&result.frequency, 1, MPI_DOUBLE, 0, 4, MPI_COMM_WORLD);
  }
  \<close>
  The field \<open>matches\<close> of a result is not sent.
\<close>

definition send_result :: "'d MotifResult \<Rightarrow> fault + 'd message list" where
  "send_result result =
     (case send_string 1 2 (motif_pattern result) of
        Inl e \<Rightarrow> Inl e
      | Inr pattern_msgs \<Rightarrow>
          Inr (pattern_msgs @
               [(3, MPI_UNSIGNED_LONG (match_count result)),
                (4, MPI_DOUBLE [frequency result])]))"

definition gatherResults_worker :: "'d MotifResult list \<Rightarrow> fault + 'd message list" where
  "gatherResults_worker local_results =
     (let result_count = int_of_size_t (length local_results)
      in case append_each send_result local_results of
           Inl e \<Rightarrow> Inl e
         | Inr msgs \<Rightarrow> Inr ((0, MPI_INT result_count) # msgs))"

text \<open>
  The master starts from its own results and appends, for the sources
  \<open>1 .. size_ - 1\<close> in this order, what it decodes from each:
  \<^verbatim>\<open>
  all_results = local_results;
  for (int src = 1; src < size_; ++src) {
    int result_count;  MPI_Recv(&result_count, 1, MPI_INT, src, 0, ...);
    for (int i = 0; i < result_count; ++i) {
      MotifResult result;
      int pattern_len;  MPI_Recv(&pattern_len, 1, MPI_INT, src, 1, ...);
      result.motif_pattern.resize(pattern_len);
      MPI_Recv(&result.motif_pattern[0], pattern_len, MPI_CHAR, src, 2, ...);
      MPI_Recv(&result.match_count, 1, MPI_UNSIGNED_LONG, src, 3, ...);
      MPI_Recv(&result.frequency, 1, MPI_DOUBLE, src, 4, ...);
      all_results.push_back(result);
    }
  }
  \<close>
  \<open>MotifResult result;\<close> is the default constructor: count 0, frequency \<open>0.0\<close>, no
  matches. The loop \<open>for (int i = 0; i < result_count; ++i)\<close> does not run for a
  negative count.
\<close>

definition recv_result ::
  "'d double_ops \<Rightarrow> 'd message list \<Rightarrow> fault + 'd MotifResult \<times> 'd message list" where
  "recv_result fp queue =
     (let result = MotifResult_of_pattern fp []
      in case recv_string 1 2 queue of
           Inl e \<Rightarrow> Inl e
         | Inr (pat, queue1) \<Rightarrow>
             (case recv_unsigned_long 3 queue1 of
                Inl e \<Rightarrow> Inl e
              | Inr (cnt, queue2) \<Rightarrow>
                  (case recv_doubles 4 1 [frequency result] queue2 of
                     Inl e \<Rightarrow> Inl e
                   | Inr (freq, queue3) \<Rightarrow>
                       Inr (result\<lparr> motif_pattern := pat, match_count := cnt,
                                    frequency := hd freq \<rparr>, queue3))))"

definition recv_results ::
  "'d double_ops \<Rightarrow> 'd message list \<Rightarrow> fault + 'd MotifResult list" where
  "recv_results fp from_src =
     (case recv_int 0 from_src of
        Inl e \<Rightarrow> Inl e
      | Inr (result_count, queue1) \<Rightarrow>
          (case recv_times (nat result_count) (recv_result fp) queue1 of
             Inl e \<Rightarrow> Inl e
           | Inr (results, _) \<Rightarrow> Inr results))"

definition gatherResults_master ::
  "'d double_ops \<Rightarrow> int \<Rightarrow> (nat \<Rightarrow> 'd message list) \<Rightarrow> 'd MotifResult list
     \<Rightarrow> fault + 'd MotifResult list" where
  "gatherResults_master fp size' from_rank local_results =
     (case append_each (\<lambda>src. recv_results fp (from_rank src)) [1..<nat size'] of
        Inl e \<Rightarrow> Inl e
      | Inr received \<Rightarrow> Inr (local_results @ received))"


section \<open>The wire format in the words of the specification\<close>

text \<open>
  A string is preceded by its own length; a sequence record is the id, the symbols, the
  metadata count and the metadata strings; the scatter block for one destination is the
  total count, the local count and the records.
\<close>

definition wire_string :: "nat \<Rightarrow> nat \<Rightarrow> string \<Rightarrow> 'd message list" where
  "wire_string len_tag data_tag s = [(len_tag, MPI_INT (int (length s))), (data_tag, MPI_CHAR s)]"

definition wire_sequence :: "ChIPSequence \<Rightarrow> 'd message list" where
  "wire_sequence seq =
     wire_string 2 3 (id' seq) @ wire_string 4 5 (sequence seq) @
     [(6, MPI_INT (int (length (metadata seq))))] @
     concat (map (wire_string 7 8) (metadata seq))"

definition wire_scatter :: "nat \<Rightarrow> ChIPSequence list \<Rightarrow> 'd message list" where
  "wire_scatter total_sequences local_sequences =
     [(0, MPI_UNSIGNED_LONG total_sequences), (1, MPI_UNSIGNED_LONG (length local_sequences))] @
     concat (map wire_sequence local_sequences)"

text \<open>
  In the same way a broadcast is the motif count and then, per motif, the pattern with
  its length and the three scores; a gather block is the result count and then, per
  result, the pattern with its length, the match count and the frequency.
\<close>

definition wire_motif :: "'d Motif \<Rightarrow> 'd payload list" where
  "wire_motif motif =
     [MPI_INT (int (length (pattern motif))), MPI_CHAR (pattern motif),
      MPI_DOUBLE [score1 motif, score2 motif, score3 motif]]"

definition wire_broadcast :: "'d Motif list \<Rightarrow> 'd payload list" where
  "wire_broadcast motifs = MPI_INT (int (length motifs)) # concat (map wire_motif motifs)"

definition wire_result :: "'d MotifResult \<Rightarrow> 'd message list" where
  "wire_result result =
     wire_string 1 2 (motif_pattern result) @
     [(3, MPI_UNSIGNED_LONG (match_count result)), (4, MPI_DOUBLE [frequency result])]"

definition wire_gather :: "'d MotifResult list \<Rightarrow> 'd message list" where
  "wire_gather results = (0, MPI_INT (int (length results))) # concat (map wire_result results)"

text \<open>
  The slice of a list that \<open>calculateWorkDistribution\<close> assigns to rank \<open>r\<close> of \<open>P\<close>.
\<close>

definition slice_of :: "'a list \<Rightarrow> nat \<Rightarrow> nat \<Rightarrow> 'a list" where
  "slice_of xs P r =
     take (snd (slice_formula (length xs) P r)) (drop (fst (slice_formula (length xs) P r)) xs)"

text \<open>
  Strings and counts that fit the \<open>int\<close> fields of the format, and what is left of a
  result after the gather: pattern, count and frequency, with no matches.
\<close>

definition fits_int :: "nat \<Rightarrow> bool" where
  "fits_int n = (n < 2 ^ 31)"

definition sequence_fits :: "ChIPSequence \<Rightarrow> bool" where
  "sequence_fits seq =
     (fits_int (length (id' seq)) \<and> fits_int (length (sequence seq)) \<and>
      fits_int (length (metadata seq)) \<and> list_all (\<lambda>m. fits_int (length m)) (metadata seq))"

definition without_matches :: "'d MotifResult \<Rightarrow> 'd MotifResult" where
  "without_matches result = result\<lparr> matches' := [] \<rparr>"

section \<open>The partition is exact\<close>

lemma size_t_of_int_nat: "n < 2^64 \<Longrightarrow> size_t_of_int (int n) = n"
  by (simp add: size_t_of_int_def)

lemma int_of_size_t_small: "n < 2^31 \<Longrightarrow> int_of_size_t n = int n"
  by (simp add: int_of_size_t_def)

lemma wrap64_id: "n \<le> N \<Longrightarrow> N < 2^64 \<Longrightarrow> wrap64 n = n"
  by (simp add: wrap64_def)

lemma start_le: 
  assumes "r < P" shows "r * (N div P) + min r (N mod P) \<le> (N::nat)"
proof -
  have "r * (N div P) + min r (N mod P) \<le> P * (N div P) + N mod P"
    using assms by (intro add_mono mult_le_mono1) simp_all
  then show ?thesis by simp
qed

lemma count_le:
  assumes "r < P" shows "N div P + (if r < N mod P then 1 else 0) \<le> (N::nat)"
proof (cases "r < N mod P")
  case True
  then have m: "1 \<le> N mod P" by simp
  have "N div P \<le> P * (N div P)" using assms by simp
  with m have "N div P + 1 \<le> P * (N div P) + N mod P" by linarith
  then show ?thesis using True by simp
next
  case False then show ?thesis by simp
qed

lemma cwd_closed:
  assumes N: "N < 2^64" and P: "P < 2^31" and r: "r < P"
  shows "calculateWorkDistribution N (int r) (int P) = Inr (slice_formula N P r)"
proof -
  have P64: "P < 2^64" using P by (rule less_trans) simp
  have Pn: "size_t_of_int (int P) = P" using P64 by (rule size_t_of_int_nat)
  have rn: "size_t_of_int (int r) = r" using r P64 by (intro size_t_of_int_nat) (rule less_trans)
  have ex: "N mod P < 2^31" using r P by (intro less_trans[OF mod_less_divisor]) auto
  have ie: "int_of_size_t (N mod P) = int (N mod P)" using ex by (rule int_of_size_t_small)
  have b1: "r * (N div P) \<le> N" using start_le[OF r, of N] by simp
  have w1: "wrap64 (r * (N div P)) = r * (N div P)" using b1 N by (rule wrap64_id)
  have w2: "wrap64 (r * (N div P) + min r (N mod P)) = r * (N div P) + min r (N mod P)"
    using start_le[OF r] N by (rule wrap64_id)
  have w3: "wrap64 (N div P + (if r < N mod P then 1 else 0)) = N div P + (if r < N mod P then 1 else 0)"
    using count_le[OF r] N by (rule wrap64_id)
  have P0: "P \<noteq> 0" using r by simp
  show ?thesis
    unfolding calculateWorkDistribution_def size_t_div_def size_t_mod_def Pn rn Let_def slice_formula_def
    by (simp only: P0 if_False sum.case w1 w2 ie w3 of_nat_less_iff)
qed

lemma all_closed:
  assumes "N < 2^64" "P < 2^31"
  shows "allWorkDistributions N P = map (\<lambda>r. Inr (slice_formula N P r)) [0..<P]"
  unfolding allWorkDistributions_def
  by (rule map_cong[OF refl]) (simp add: cwd_closed[OF assms])

lemma count_sum_upto:
  "sum_list (map (\<lambda>r. snd (slice_formula N P r)) [0..<k]) = k * (N div P) + min k (N mod P)"
  by (induction k) (auto simp: slice_formula_def)

lemma count_sum:
  assumes "0 < P"
  shows "sum_list (map (\<lambda>r. snd (slice_formula N P r)) [0..<P]) = N"
proof -
  have "N mod P < P" using assms by (rule mod_less_divisor)
  then have "min P (N mod P) = N mod P" by (simp add: min_absorb2)
  then show ?thesis by (simp add: count_sum_upto)
qed

lemma start_step:
  "fst (slice_formula N P (Suc r)) = fst (slice_formula N P r) + snd (slice_formula N P r)"
  by (auto simp: slice_formula_def)

lemma contiguous_from:
  "k \<le> P \<Longrightarrow> contiguous (map (slice_formula N P) [k..<P]) (fst (slice_formula N P k)) (fst (slice_formula N P P))"
proof (induction "P - k" arbitrary: k)
  case 0
  then show ?case by simp
next
  case (Suc d)
  then have lt: "k < P" and d: "d = P - Suc k" by simp_all
  have "contiguous (map (slice_formula N P) [Suc k..<P]) (fst (slice_formula N P (Suc k))) (fst (slice_formula N P P))"
    using Suc.hyps(1)[OF d] lt by simp
  then have "contiguous (slice_formula N P k # map (slice_formula N P) [Suc k..<P]) (fst (slice_formula N P k)) (fst (slice_formula N P P))"
    by (cases "slice_formula N P k") (simp add: start_step)
  then show ?case using lt by (simp add: upt_conv_Cons)
qed

lemma contiguous_all:
  assumes "0 < P"
  shows "contiguous (map (slice_formula N P) [0..<P]) 0 N"
proof -
  have a: "fst (slice_formula N P 0) = 0" by (simp add: slice_formula_def)
  have "N mod P < P" using assms by (rule mod_less_divisor)
  then have "min P (N mod P) = N mod P" by (simp add: min_absorb2)
  then have b: "fst (slice_formula N P P) = N" by (simp add: slice_formula_def)
  show ?thesis using contiguous_from[of 0 P N] by (simp only: a b le0)
qed

text \<open>
  Claim C1. For every item count \<open>N\<close> (a \<open>size_t\<close>) and every peer count
  \<open>P \<ge> 1\<close> (an \<open>int\<close>), \<open>calculateWorkDistribution\<close> gives rank \<open>r < P\<close> the
  slice that starts at \<open>r * (N div P) + min r (N mod P)\<close> and holds
  \<open>N div P + (if r < N mod P then 1 else 0)\<close> items; the counts of the \<open>P\<close> ranks add
  up to \<open>N\<close>, and in rank order the slices tile \<open>[0, N)\<close>: the first starts at 0, each
  next one starts where its predecessor ends, the last ends at \<open>N\<close>.
\<close>

theorem C1_partition:
  assumes "N < 2 ^ 64" and "0 < P" and "P < 2 ^ 31"
  shows "\<exists>slices.
           allWorkDistributions N P = map Inr slices \<and>
           length slices = P \<and>
           (\<forall>r<P. calculateWorkDistribution N (int r) (int P) = Inr (slices ! r) \<and>
                   slices ! r = (r * (N div P) + min r (N mod P),
                                 N div P + (if r < N mod P then 1 else 0))) \<and>
           sum_list (map snd slices) = N \<and>
           contiguous slices 0 N"
proof (intro exI conjI)
  let ?s = "map (slice_formula N P) [0..<P]"
  show "allWorkDistributions N P = map Inr ?s"
    using all_closed[OF assms(1,3)] by (simp add: comp_def)
  show "length ?s = P" by simp
  show "\<forall>r<P. calculateWorkDistribution N (int r) (int P) = Inr (?s ! r) \<and>
           ?s ! r = (r * (N div P) + min r (N mod P), N div P + (if r < N mod P then 1 else 0))"
    using cwd_closed[OF assms(1,3)] by (simp add: slice_formula_def)
  show "sum_list (map snd ?s) = N"
    using count_sum[OF assms(2), of N] by (simp add: comp_def)
  show "contiguous ?s 0 N" by (rule contiguous_all[OF assms(2)])
qed

theorem C1_partition_witness:
  "allWorkDistributions 11 3 = [Inr (0, 4), Inr (4, 4), Inr (8, 3)] \<and>
   sum_list (map snd [(0, 4), (4, 4), (8::nat, 3::nat)]) = 11 \<and>
   contiguous [(0, 4), (4, 4), (8, 3)] 0 11"
proof -
  have h: "(11::nat) < 2 ^ 64" "(0::nat) < 3" "(3::nat) < 2 ^ 31" by simp_all
  obtain slices where s: "allWorkDistributions 11 3 = map Inr slices"
      "sum_list (map snd slices) = 11" "contiguous slices 0 11"
    using C1_partition[OF h] by blast
  have e: "allWorkDistributions 11 3 = [Inr (0, 4), Inr (4, 4), Inr (8, 3)]"
    by (simp add: allWorkDistributions_def upt_conv_Cons calculateWorkDistribution_def
          size_t_div_def size_t_mod_def size_t_of_int_def int_of_size_t_def wrap64_def)
  from trans[OF s(1)[symmetric] e] have "slices = [(0, 4), (4, 4), (8, 3)]"
    by (auto simp: map_eq_Cons_conv)
  with s e show ?thesis by simp
qed

text \<open>
  Claim C9 says that a partition request with zero total peers is rejected. The source
  has no test of \<open>total_processes\<close>: for 10 items, rank 0 and zero peers the call runs
  into the division \<open>total_sequences / total_processes\<close>, which is undefined behaviour
  and not an error the function raises.
\<close>

theorem C9_zero_peers_not_rejected:
  "\<not> rejected (calculateWorkDistribution 10 0 0)"
  by (simp add: rejected_def calculateWorkDistribution_def size_t_div_def size_t_of_int_def)

text \<open>
  Claim C9, as the code has it. The peer count being at least 1 is a precondition that
  \<open>calculateWorkDistribution\<close> does not check. With zero peers, whatever \<open>N\<close> and the
  rank are, its first statement divides \<open>total_sequences\<close> by zero: no partition is
  returned, the outcome is undefined behaviour, and nothing in the function rejects
  the request.
\<close>

theorem C9_zero_peers:
  "calculateWorkDistribution N r 0 = Inl DivisionByZero \<and>
   undefined_behaviour DivisionByZero \<and>
   \<not> rejected (calculateWorkDistribution N r 0)"
  by (simp add: rejected_def calculateWorkDistribution_def size_t_div_def size_t_of_int_def)

section \<open>Symbol matching\<close>

lemmas table_eval = getInstance_def initializeIUPACMap_def addMapping_def NUL_def
lemmas char_eval = toupper_def char_of_def bit_Suc_0_iff

lemma toupper_idem: "toupper (toupper c) = toupper c"
proof (cases "97 \<le> (of_char c :: nat) \<and> (of_char c :: nat) \<le> 122")
  case True
  then have up: "toupper c = char_of (of_char c - 32 :: nat)"
    by (simp add: toupper_def Let_def)
  from True have "(of_char c :: nat) - 32 < 256" by linarith
  then have "(of_char (char_of (of_char c - 32 :: nat)) :: nat) = of_char c - 32"
    by (simp add: of_char_of)
  moreover from True have "\<not> 97 \<le> (of_char c :: nat) - 32" by linarith
  ultimately have "toupper (char_of (of_char c - 32 :: nat)) = char_of (of_char c - 32 :: nat)"
    by (simp add: toupper_def Let_def)
  then show ?thesis by (simp only: up)
next
  case False
  then have "toupper c = c" unfolding toupper_def Let_def by (rule if_not_P)
  then show ?thesis by simp
qed

lemma isValid_toupper: "isValidIUPACCode this (toupper c) = isValidIUPACCode this c"
  by (simp add: isValidIUPACCode_def toupper_idem)

lemma getNucleotides_toupper: "getNucleotides this (toupper c) = getNucleotides this c"
  by (simp add: getNucleotides_def toupper_idem isValid_toupper)

lemma getNucleotides_invalid: "\<not> isValidIUPACCode this c \<Longrightarrow> getNucleotides this c = []"
  by (simp add: getNucleotides_def isValid_toupper)

lemma matches_iff: "matches this n c = (toupper n \<in> set (getNucleotides this c))"
  by (simp add: matches_def Let_def isValid_toupper getNucleotides_toupper getNucleotides_invalid)

lemma valid_codes_inst:
  "valid_codes getInstance u = (u \<in> set ''NVHDBMKWSYRCGTA'')"
  by (simp add: table_eval)

lemma iupac_map_inst:
  "iupac_map getInstance u =
     (if u = CHR ''N'' then ''ATGC''
      else if u = CHR ''V'' then ''ACG'' @ [NUL]
      else if u = CHR ''H'' then ''ACT'' @ [NUL]
      else if u = CHR ''D'' then ''AGT'' @ [NUL]
      else if u = CHR ''B'' then ''CGT'' @ [NUL]
      else if u = CHR ''M'' then ''AC'' @ [NUL, NUL]
      else if u = CHR ''K'' then ''GT'' @ [NUL, NUL]
      else if u = CHR ''W'' then ''AT'' @ [NUL, NUL]
      else if u = CHR ''S'' then ''GC'' @ [NUL, NUL]
      else if u = CHR ''Y'' then ''TC'' @ [NUL, NUL]
      else if u = CHR ''R'' then ''AG'' @ [NUL, NUL]
      else if u = CHR ''C'' then ''C'' @ [NUL, NUL, NUL]
      else if u = CHR ''G'' then ''G'' @ [NUL, NUL, NUL]
      else if u = CHR ''T'' then ''T'' @ [NUL, NUL, NUL]
      else if u = CHR ''A'' then ''A'' @ [NUL, NUL, NUL]
      else [NUL, NUL, NUL, NUL])"
  by (simp add: table_eval)


lemma iupac_map_range:
  "set (iupac_map getInstance u) \<subseteq> {CHR ''A'', CHR ''T'', CHR ''G'', CHR ''C'', NUL}"
  by (simp add: iupac_map_inst)

lemma getNucleotides_concrete:
  "set (getNucleotides getInstance c) \<subseteq> {CHR ''A'', CHR ''T'', CHR ''G'', CHR ''C''}"
proof
  fix x assume "x \<in> set (getNucleotides getInstance c)"
  then have "x \<in> set (iupac_map getInstance (toupper c))" and "x \<noteq> NUL"
    by (auto simp: getNucleotides_def Let_def split: if_splits)
  with iupac_map_range[of "toupper c"] show "x \<in> {CHR ''A'', CHR ''T'', CHR ''G'', CHR ''C''}"
    by auto
qed

lemma matches_invalid_nucleotide:
  "toupper n \<notin> {CHR ''A'', CHR ''T'', CHR ''G'', CHR ''C''} \<Longrightarrow> \<not> matches getInstance n c"
  using getNucleotides_concrete[of c] by (auto simp: matches_iff)

lemma matches_invalid_code:
  "\<not> isValidIUPACCode this c \<Longrightarrow> \<not> matches this n c"
  by (simp add: matches_iff getNucleotides_invalid)

text \<open>
  Claim C2. For all characters \<open>n\<close> and \<open>c\<close>, \<open>matches n c\<close> is true exactly when the
  case-folded \<open>n\<close> is an element of what \<open>getNucleotides\<close> returns for the case-folded
  \<open>c\<close>. It is false when \<open>c\<close> is not one of the fifteen codes and false when \<open>n\<close>,
  case-folded, is not one of A, T, G, C. \<open>matches\<close> is a total function: no input makes
  it fail. \<open>matches A R\<close> holds, \<open>matches T R\<close> does not, and \<open>matches x N\<close> holds for
  each of A, T, G, C.
\<close>

theorem C2_matches:
  "matches getInstance n c = (toupper n \<in> set (getNucleotides getInstance (toupper c))) \<and>
   (\<not> isValidIUPACCode getInstance c \<longrightarrow> \<not> matches getInstance n c) \<and>
   (toupper n \<notin> {CHR ''A'', CHR ''T'', CHR ''G'', CHR ''C''} \<longrightarrow> \<not> matches getInstance n c) \<and>
   matches getInstance (CHR ''A'') (CHR ''R'') \<and>
   \<not> matches getInstance (CHR ''T'') (CHR ''R'') \<and>
   (\<forall>x \<in> {CHR ''A'', CHR ''T'', CHR ''G'', CHR ''C''}. matches getInstance x (CHR ''N''))"
proof (intro conjI)
  show "matches getInstance n c = (toupper n \<in> set (getNucleotides getInstance (toupper c)))"
    by (simp only: matches_iff getNucleotides_toupper)
  show "\<not> isValidIUPACCode getInstance c \<longrightarrow> \<not> matches getInstance n c"
    using matches_invalid_code by blast
  show "toupper n \<notin> {CHR ''A'', CHR ''T'', CHR ''G'', CHR ''C''} \<longrightarrow> \<not> matches getInstance n c"
    using matches_invalid_nucleotide by blast
  show "matches getInstance (CHR ''A'') (CHR ''R'')"
    by (simp add: matches_def getNucleotides_def isValidIUPACCode_def table_eval char_eval)
  show "\<not> matches getInstance (CHR ''T'') (CHR ''R'')"
    by (simp add: matches_def getNucleotides_def isValidIUPACCode_def table_eval char_eval)
  show "\<forall>x \<in> {CHR ''A'', CHR ''T'', CHR ''G'', CHR ''C''}. matches getInstance x (CHR ''N'')"
    by (simp add: matches_def getNucleotides_def isValidIUPACCode_def table_eval char_eval)
qed

theorem C2_matches_witness:
  "\<not> isValidIUPACCode getInstance (CHR ''X'') \<and> \<not> matches getInstance (CHR ''A'') (CHR ''X'') \<and>
   toupper (CHR ''x'') \<notin> {CHR ''A'', CHR ''T'', CHR ''G'', CHR ''C''} \<and>
   \<not> matches getInstance (CHR ''x'') (CHR ''a'') \<and>
   matches getInstance (CHR ''g'') (CHR ''r'') =
     (toupper (CHR ''g'') \<in> set (getNucleotides getInstance (toupper (CHR ''r'')))) \<and>
   matches getInstance (CHR ''g'') (CHR ''r'')"
proof -
  have v: "\<not> isValidIUPACCode getInstance (CHR ''X'')"
    by (simp add: isValidIUPACCode_def table_eval char_eval)
  have u: "toupper (CHR ''x'') \<notin> {CHR ''A'', CHR ''T'', CHR ''G'', CHR ''C''}"
    by (simp add: char_eval)
  have g: "matches getInstance (CHR ''g'') (CHR ''r'')"
    by (simp add: matches_def getNucleotides_def isValidIUPACCode_def table_eval char_eval)
  from C2_matches[of "CHR ''A''" "CHR ''X''"] v
  have 1: "\<not> matches getInstance (CHR ''A'') (CHR ''X'')" by blast
  from C2_matches[of "CHR ''x''" "CHR ''a''"] u
  have 2: "\<not> matches getInstance (CHR ''x'') (CHR ''a'')" by blast
  from C2_matches[of "CHR ''g''" "CHR ''r''"]
  have 3: "matches getInstance (CHR ''g'') (CHR ''r'') =
     (toupper (CHR ''g'') \<in> set (getNucleotides getInstance (toupper (CHR ''r''))))" by blast
  from v u g 1 2 3 show ?thesis by blast
qed

section \<open>The sliding window\<close>

lemma all_of_total:
  "(\<And>i. i \<in> set idxs \<Longrightarrow> pred i = Inr (P i)) \<Longrightarrow> all_of pred idxs = Inr (\<forall>i\<in>set idxs. P i)"
  by (induction idxs) auto

lemma copy_filter_total:
  "(\<And>x. x \<in> set xs \<Longrightarrow> pred x = Inr (P x)) \<Longrightarrow> copy_filter pred xs = Inr (filter P xs)"
  by (induction xs) auto

lemma copy_transform_total:
  "(\<And>x. x \<in> set xs \<Longrightarrow> f x = Inr (g x)) \<Longrightarrow> copy_transform f xs = Inr (map g xs)"
  by (induction xs) auto

lemma wrap64_less: "n < 2 ^ 64 \<Longrightarrow> wrap64 n = n"
  by (simp add: wrap64_def)

lemma matchesMotif_no_wrap:
  assumes nw: "start_pos + length motif < 2 ^ 64"
  shows "matchesMotif this seq motif start_pos =
           Inr (start_pos + length motif \<le> length seq \<and>
                (\<forall>i<length motif. matches this (seq ! (start_pos + i)) (motif ! i)))"
proof (cases "start_pos + length motif \<le> length seq")
  case False
  then show ?thesis by (simp add: matchesMotif_def wrap64_less[OF nw])
next
  case True
  have step: "(case subscript seq (wrap64 (start_pos + i)) of
                 Inl e \<Rightarrow> Inl e
               | Inr s \<Rightarrow> (case subscript motif i of Inl e \<Rightarrow> Inl e | Inr m \<Rightarrow> Inr (matches this s m)))
              = Inr (matches this (seq ! (start_pos + i)) (motif ! i))"
    if "i \<in> set [0..<length motif]" for i
  proof -
    from that have i: "i < length motif" by simp
    then have "start_pos + i < 2 ^ 64" using nw by simp
    then have w: "wrap64 (start_pos + i) = start_pos + i" by (rule wrap64_less)
    have "start_pos + i < length seq" using i True by simp
    then show ?thesis using i by (simp add: w subscript_def)
  qed
  have "matchesMotif this seq motif start_pos =
          Inr (\<forall>i\<in>set [0..<length motif]. matches this (seq ! (start_pos + i)) (motif ! i))"
    unfolding matchesMotif_def wrap64_less[OF nw] using True
    by (simp add: all_of_total[OF step] not_less del: set_upt)
  then show ?thesis using True by auto
qed

lemma findMotifMatches_closed:
  assumes len: "length seq < 2 ^ 64 - 1"
  shows "findMotifMatches this seq motif = Inr (matching_offsets this seq motif)"
proof (cases "length motif \<le> length seq")
  case False
  then show ?thesis by (simp add: findMotifMatches_def matching_offsets_def)
next
  case True
  let ?max = "length seq - length motif"
  have "?max + 1 < 2 ^ 64" using len by simp
  then have "wrap64 (?max + 1) = ?max + 1" by (rule wrap64_less)
  then have w: "wrap64 (Suc ?max) = Suc ?max" by simp
  have each: "matchesMotif this seq motif pos = Inr (matchesMotif this seq motif pos = Inr True)"
    if "pos \<in> set [0..<?max + 1]" for pos
  proof -
    from that have "pos < ?max + 1" by (simp del: upt_Suc)
    with True have "pos + length motif \<le> length seq" by linarith
    then have "pos + length motif < 2 ^ 64" using len by simp
    then show ?thesis by (simp add: matchesMotif_no_wrap)
  qed
  have "findMotifMatches this seq motif =
          copy_filter (matchesMotif this seq motif) [0..<?max + 1]"
    using True by (simp add: findMotifMatches_def Let_def w del: upt_Suc)
  also have "\<dots> = Inr (filter (\<lambda>pos. matchesMotif this seq motif pos = Inr True) [0..<?max + 1])"
    by (rule copy_filter_total[OF each])
  finally show ?thesis using True by (simp add: matching_offsets_def del: upt_Suc)
qed

lemma matching_offsets_bound:
  "pos \<in> set (matching_offsets this seq motif) \<Longrightarrow> pos + length motif \<le> length seq"
  by (auto simp del: upt_Suc simp: matching_offsets_def split: if_splits)

lemma matching_offsets_sorted: "sorted_wrt (<) (matching_offsets this seq motif)"
  by (simp add: matching_offsets_def sorted_wrt_filter del: upt_Suc)

lemma findMotifInSequence_closed:
  assumes len: "length (sequence seq) < 2 ^ 64 - 1"
  shows "findMotifInSequence this seq motif k =
           Inr (map (\<lambda>pos. \<lparr> sequence_index = k, position = pos,
                              matched_sequence = take (length (pattern motif)) (drop pos (sequence seq)) \<rparr>)
                    (matching_offsets this (sequence seq) (pattern motif)))"
proof (cases "length (pattern motif) \<le> length (sequence seq)")
  case False
  then show ?thesis by (simp add: findMotifInSequence_def matching_offsets_def)
next
  case True
  have sub: "(case substr (sequence seq) pos (length (pattern motif)) of
                Inl e \<Rightarrow> Inl e
              | Inr matched \<Rightarrow> Inr \<lparr> sequence_index = k, position = pos, matched_sequence = matched \<rparr>)
             = Inr \<lparr> sequence_index = k, position = pos,
                     matched_sequence = take (length (pattern motif)) (drop pos (sequence seq)) \<rparr>"
    if "pos \<in> set (matching_offsets this (sequence seq) (pattern motif))" for pos
    using matching_offsets_bound[OF that] by (simp add: substr_def)
  show ?thesis
    using True
    by (simp add: findMotifInSequence_def findMotifMatches_closed[OF len] copy_transform_total[OF sub])
qed

lemmas matcher_eval = matches_def getNucleotides_def isValidIUPACCode_def table_eval char_eval

text \<open>
  Claim C8, at an offset where it fails. The guard of \<open>matchesMotif\<close> adds
  \<open>start_pos\<close> and the motif length as \<open>size_t\<close>. For the sequence \<open>AT\<close>, the motif \<open>NN\<close>
  and \<open>start_pos = 2 ^ 64 - 1\<close> the offset is out of range, the sum wraps around to 1,
  the guard does not fire, and the first symbol comparison reads
  \<open>sequence[2 ^ 64 - 1]\<close>, outside the sequence: the call does not return false. For
  offsets whose sum with the motif length stays below \<open>2 ^ 64\<close>, lemma
  \<open>matchesMotif_no_wrap\<close> above gives exactly what the claim says.
\<close>

theorem C8_wrapped_offset:
  "length ''AT'' < 2 ^ 64 - 1 + length ''NN'' \<and>
   matchesMotif getInstance ''AT'' ''NN'' (2 ^ 64 - 1) = Inl OutOfBounds"
  by (simp add: matchesMotif_def wrap64_def subscript_def upt_conv_Cons)

text \<open>
  Claim C4. For a sequence (of a length a \<open>string\<close> can have) and a motif,
  \<open>findMotifMatches\<close> returns exactly the offsets of \<open>0 .. |sequence| - |motif|\<close> at which
  \<open>matchesMotif\<close> holds, in ascending order, and the empty list when the motif is the
  longer one; \<open>findMotifInSequence\<close> returns one \<open>MotifMatch\<close> per such offset, in the
  same order, each with the given sequence index, the offset, and the substring of the
  motif's length found at that offset.
\<close>

theorem C4_offsets:
  assumes "length (sequence seq) < 2 ^ 64 - 1"
  shows "findMotifMatches this (sequence seq) (pattern motif) =
           Inr (matching_offsets this (sequence seq) (pattern motif)) \<and>
         findMotifInSequence this seq motif k =
           Inr (map (\<lambda>pos. \<lparr> sequence_index = k, position = pos,
                              matched_sequence =
                                take (length (pattern motif)) (drop pos (sequence seq)) \<rparr>)
                    (matching_offsets this (sequence seq) (pattern motif))) \<and>
         sorted_wrt (<) (matching_offsets this (sequence seq) (pattern motif)) \<and>
         (\<forall>pos. pos \<in> set (matching_offsets this (sequence seq) (pattern motif)) \<longleftrightarrow>
                pos + length (pattern motif) \<le> length (sequence seq) \<and>
                matchesMotif this (sequence seq) (pattern motif) pos = Inr True) \<and>
         (\<forall>pos \<in> set (matching_offsets this (sequence seq) (pattern motif)).
            length (take (length (pattern motif)) (drop pos (sequence seq))) =
              length (pattern motif)) \<and>
         (length (sequence seq) < length (pattern motif) \<longrightarrow>
            findMotifMatches this (sequence seq) (pattern motif) = Inr [] \<and>
            findMotifInSequence this seq motif k = Inr [])"
proof (intro conjI)
  let ?offs = "matching_offsets this (sequence seq) (pattern motif)"
  show "findMotifMatches this (sequence seq) (pattern motif) = Inr ?offs"
    by (rule findMotifMatches_closed[OF assms])
  show "findMotifInSequence this seq motif k =
           Inr (map (\<lambda>pos. \<lparr> sequence_index = k, position = pos,
                              matched_sequence =
                                take (length (pattern motif)) (drop pos (sequence seq)) \<rparr>) ?offs)"
    by (rule findMotifInSequence_closed[OF assms])
  show "sorted_wrt (<) ?offs" by (rule matching_offsets_sorted)
  show "\<forall>pos. pos \<in> set ?offs \<longleftrightarrow>
                pos + length (pattern motif) \<le> length (sequence seq) \<and>
                matchesMotif this (sequence seq) (pattern motif) pos = Inr True"
    by (auto simp del: upt_Suc simp: matching_offsets_def)
  show "\<forall>pos \<in> set ?offs.
            length (take (length (pattern motif)) (drop pos (sequence seq))) = length (pattern motif)"
  proof
    fix pos assume "pos \<in> set ?offs"
    then have "pos + length (pattern motif) \<le> length (sequence seq)"
      by (rule matching_offsets_bound)
    then show "length (take (length (pattern motif)) (drop pos (sequence seq))) = length (pattern motif)"
      by simp
  qed
  show "length (sequence seq) < length (pattern motif) \<longrightarrow>
            findMotifMatches this (sequence seq) (pattern motif) = Inr [] \<and>
            findMotifInSequence this seq motif k = Inr []"
    by (simp add: findMotifMatches_def findMotifInSequence_def)
qed

theorem C4_offsets_witness:
  "length (sequence \<lparr> id' = ''seq1'', sequence = ''ATGCATGCATGC'', metadata = [] \<rparr>) < 2 ^ 64 - 1 \<and>
   findMotifMatches getInstance ''ATGCATGCATGC'' ''ATRC'' = Inr [0, 4, 8] \<and>
   findMotifInSequence getInstance
       \<lparr> id' = ''seq1'', sequence = ''ATGCATGCATGC'', metadata = [] \<rparr>
       \<lparr> pattern = ''ATRC'', score1 = 1, score2 = 2, score3 = (3::rat) \<rparr> 7 =
     Inr [\<lparr> sequence_index = 7, position = 0, matched_sequence = ''ATGC'' \<rparr>,
          \<lparr> sequence_index = 7, position = 4, matched_sequence = ''ATGC'' \<rparr>,
          \<lparr> sequence_index = 7, position = 8, matched_sequence = ''ATGC'' \<rparr>]"
proof -
  let ?s = "\<lparr> id' = ''seq1'', sequence = ''ATGCATGCATGC'', metadata = [] \<rparr>"
  let ?m = "\<lparr> pattern = ''ATRC'', score1 = 1, score2 = 2, score3 = (3::rat) \<rparr>"
  have h: "length (sequence ?s) < 2 ^ 64 - 1" by simp
  have o: "matching_offsets getInstance ''ATGCATGCATGC'' ''ATRC'' = [0, 4, 8]"
    by (simp add: matching_offsets_def matchesMotif_def wrap64_def subscript_def upt_conv_Cons matcher_eval)
  from C4_offsets[OF h, of getInstance ?m 7] o h show ?thesis by simp
qed

text \<open>
  Claim C10. For every sequence \<open>s\<close>, \<open>findMotifMatches\<close> with the empty motif returns
  the offsets \<open>0, 1, ..., |s|\<close> in ascending order, the offset \<open>|s|\<close> included:
  \<open>matchesMotif\<close> on the empty motif is true at every offset up to \<open>|s|\<close>.
\<close>

theorem C10_empty_pattern:
  assumes "length seq < 2 ^ 64 - 1"
  shows "findMotifMatches this seq [] = Inr [0..<length seq + 1] \<and>
         (\<forall>pos \<le> length seq. matchesMotif this seq [] pos = Inr True)"
proof
  have m: "matchesMotif this seq [] pos = Inr (pos \<le> length seq)" if "pos \<le> length seq" for pos
  proof -
    from that assms have "pos + length ([]::string) < 2 ^ 64" by simp
    from matchesMotif_no_wrap[OF this, of this seq] show ?thesis by simp
  qed
  then show all: "\<forall>pos \<le> length seq. matchesMotif this seq [] pos = Inr True" by simp
  have "filter (\<lambda>pos. matchesMotif this seq [] pos = Inr True) [0..<length seq + 1] = [0..<length seq + 1]"
    by (rule filter_True) (use all in \<open>simp del: upt_Suc\<close>)
  then show "findMotifMatches this seq [] = Inr [0..<length seq + 1]"
    using findMotifMatches_closed[OF assms, of this "[]"]
    by (simp add: matching_offsets_def del: upt_Suc)
qed

theorem C10_empty_pattern_witness:
  "length ''ACG'' < 2 ^ 64 - 1 \<and> findMotifMatches getInstance ''ACG'' '''' = Inr [0, 1, 2, 3] \<and>
   matchesMotif getInstance ''ACG'' '''' 3 = Inr True"
proof -
  have h: "length ''ACG'' < 2 ^ 64 - 1" by simp
  have u: "[0..<length ''ACG'' + 1] = [0, 1, 2, 3]" by (simp add: upt_conv_Cons)
  from C10_empty_pattern[OF h, of getInstance] have
    "findMotifMatches getInstance ''ACG'' '''' = Inr [0..<length ''ACG'' + 1]"
    "matchesMotif getInstance ''ACG'' '''' 3 = Inr True" by simp_all
  with h u show ?thesis by simp
qed

section \<open>Aggregation per motif and the two batch paths\<close>

lemma has_occurrence_offsets:
  "has_occurrence this pat seq = (matching_offsets this (sequence seq) pat \<noteq> [])"
proof
  assume "has_occurrence this pat seq"
  then obtain pos where p: "pos + length pat \<le> length (sequence seq)"
      "matchesMotif this (sequence seq) pat pos = Inr True"
    unfolding has_occurrence_def by blast
  from p(1) have "length pat \<le> length (sequence seq)"
      and "pos < length (sequence seq) - length pat + 1" by linarith+
  with p(2) have "pos \<in> set (matching_offsets this (sequence seq) pat)"
    by (simp add: matching_offsets_def del: upt_Suc)
  then show "matching_offsets this (sequence seq) pat \<noteq> []" by auto
next
  assume "matching_offsets this (sequence seq) pat \<noteq> []"
  then obtain pos rest where "matching_offsets this (sequence seq) pat = pos # rest"
    by (cases "matching_offsets this (sequence seq) pat") simp_all
  then have p: "pos \<in> set (matching_offsets this (sequence seq) pat)" by simp
  then have "matchesMotif this (sequence seq) pat pos = Inr True"
    by (auto simp del: upt_Suc simp: matching_offsets_def split: if_splits)
  with matching_offsets_bound[OF p] show "has_occurrence this pat seq"
    unfolding has_occurrence_def by blast
qed

lemma filter_upt_first:
  assumes "filter P [0..<n] = p # rest"
  shows "P p \<and> p < n \<and> (\<forall>q<p. \<not> P q)"
proof -
  from assms obtain us vs where xs: "[0..<n] = us @ p # vs"
      and us: "\<forall>u\<in>set us. \<not> P u" and p: "P p"
    by (auto simp: filter_eq_Cons_iff)
  have lt: "length us < n" using arg_cong[OF xs, of length] by simp
  have "[0..<n] ! length us = p" by (simp add: xs)
  with lt have lp: "length us = p" by simp
  have "\<not> P q" if "q < p" for q
  proof -
    from that lp lt have "[0..<n] ! q = us ! q" by (simp add: xs nth_append)
    moreover from that lt lp have "[0..<n] ! q = q" by simp
    ultimately have "q \<in> set us" using that lp by (metis nth_mem)
    with us show ?thesis by blast
  qed
  with p lt lp show ?thesis by blast
qed

lemma matching_offsets_first:
  assumes "matching_offsets this seq pat = pos # rest"
  shows "matchesMotif this seq pat pos = Inr True \<and> pos + length pat \<le> length seq \<and>
         (\<forall>q<pos. matchesMotif this seq pat q \<noteq> Inr True)"
proof -
  from assms have le: "length pat \<le> length seq"
    by (auto simp: matching_offsets_def split: if_splits)
  with assms have "filter (\<lambda>pos. matchesMotif this seq pat pos = Inr True)
                      [0..<length seq - length pat + 1] = pos # rest"
    by (simp add: matching_offsets_def del: upt_Suc)
  from filter_upt_first[OF this] le show ?thesis by auto
qed

lemma first_matches_length: "length (first_matches this pat xs) \<le> length xs"
  by (induction xs) (auto split: list.splits)

lemma first_matches_indices:
  "map sequence_index (first_matches this pat xs) =
     map fst (filter (\<lambda>(i, seq). has_occurrence this pat seq) xs)"
  by (induction xs) (auto simp: has_occurrence_offsets split: list.splits)

lemma first_matches_position:
  "m \<in> set (first_matches this pat xs) \<Longrightarrow>
     \<exists>seq. (sequence_index m, seq) \<in> set xs \<and>
           matchesMotif this (sequence seq) pat (position m) = Inr True \<and>
           (\<forall>pos < position m. matchesMotif this (sequence seq) pat pos \<noteq> Inr True) \<and>
           matched_sequence m = take (length pat) (drop (position m) (sequence seq))"
proof (induction xs)
  case Nil
  then show ?case by simp
next
  case (Cons x xs)
  obtain i seq where x: "x = (i, seq)" by (cases x)
  show ?case
  proof (cases "matching_offsets this (sequence seq) pat")
    case Nil
    with Cons x show ?thesis by auto
  next
    case (Cons pos rest)
    note first = matching_offsets_first[OF Cons]
    from Cons.prems Cons x
    consider "m = \<lparr> sequence_index = i, position = pos,
                      matched_sequence = take (length pat) (drop pos (sequence seq)) \<rparr>"
      | "m \<in> set (first_matches this pat xs)" by auto
    then show ?thesis
    proof cases
      case 1
      with first x show ?thesis by auto
    next
      case 2
      from Cons.IH[OF 2] x show ?thesis by auto
    qed
  qed
qed

lemma scan_sequences_closed:
  assumes "\<forall>(i, seq) \<in> set xs. length (sequence seq) < 2 ^ 64 - 1"
      and "match_count acc + length xs < 2 ^ 64"
  shows "scan_sequences this motif xs acc =
           Inr (acc\<lparr> match_count := match_count acc + length (first_matches this (pattern motif) xs),
                     matches' := matches' acc @ first_matches this (pattern motif) xs \<rparr>)"
  using assms
proof (induction xs arbitrary: acc)
  case Nil
  then show ?case by simp
next
  case (Cons x xs)
  obtain i seq where x: "x = (i, seq)" by (cases x)
  from Cons.prems(1) x have len: "length (sequence seq) < 2 ^ 64 - 1" by simp
  from Cons.prems(1) have rest: "\<forall>(i, seq) \<in> set xs. length (sequence seq) < 2 ^ 64 - 1" by simp
  note fm = findMotifInSequence_closed[OF len, of this motif i]
  show ?case
  proof (cases "matching_offsets this (sequence seq) (pattern motif)")
    case Nil
    from Cons.prems(2) have "match_count acc + length xs < 2 ^ 64" by simp
    from Cons.IH[OF rest this] show ?thesis by (simp add: x fm Nil)
  next
    case (Cons pos more)
    let ?acc = "acc\<lparr> match_count := wrap64 (match_count acc + 1),
                      matches' := matches' acc @
                        [\<lparr> sequence_index = i, position = pos,
                           matched_sequence = take (length (pattern motif)) (drop pos (sequence seq)) \<rparr>] \<rparr>"
    from Cons.prems(2) have "Suc (match_count acc) < 2 ^ 64" by simp
    then have w: "wrap64 (Suc (match_count acc)) = Suc (match_count acc)" by (rule wrap64_less)
    with Cons.prems(2) have "match_count ?acc + length xs < 2 ^ 64" by simp
    from Cons.IH[OF rest this] show ?thesis by (simp add: x fm Cons w)
  qed
qed

lemma zip_upt_nth: "zip [0..<length xs] xs = map (\<lambda>i. (i, xs ! i)) [0..<length xs]"
proof (rule nth_equalityI)
  show "length (zip [0..<length xs] xs) = length (map (\<lambda>i. (i, xs ! i)) [0..<length xs])"
    by simp
next
  fix i assume "i < length (zip [0..<length xs] xs)"
  then have "i < length xs" by simp
  then show "zip [0..<length xs] xs ! i = map (\<lambda>i. (i, xs ! i)) [0..<length xs] ! i"
    by simp
qed

lemma enumerated_filter_indices:
  "map fst (filter (\<lambda>(i, s). H s) (zip [0..<length xs] xs)) =
     filter (\<lambda>i. H (xs ! i)) [0..<length xs]"
  by (simp only: zip_upt_nth filter_map map_map comp_def fst_conv split_conv map_ident)

lemma zipped_filter_length:
  "length idxs = length xs \<Longrightarrow>
     length (filter (\<lambda>(i, s). H s) (zip idxs xs)) = length (filter H xs)"
  by (induction idxs xs rule: list_induct2) simp_all

lemma enumerated_filter_length:
  "length (filter (\<lambda>(i, s). H s) (zip [0..<length xs] xs)) = length (filter H xs)"
  by (rule zipped_filter_length) simp

lemma findSingleMotif_closed:
  assumes n: "length sequences < 2 ^ 64"
      and len: "\<forall>s \<in> set sequences. length (sequence s) < 2 ^ 64 - 1"
  shows "findSingleMotif fp this sequences motif =
           Inr \<lparr> motif_pattern = pattern motif,
                 match_count =
                   length (first_matches this (pattern motif) (zip [0..<length sequences] sequences)),
                 frequency =
                   (if sequences = [] then dbl_zero fp
                    else dbl_div fp
                           (dbl_of_size_t fp
                              (length (first_matches this (pattern motif)
                                         (zip [0..<length sequences] sequences))))
                           (dbl_of_size_t fp (length sequences))),
                 matches' = first_matches this (pattern motif) (zip [0..<length sequences] sequences) \<rparr>"
proof -
  let ?xs = "zip [0..<length sequences] sequences"
  have a: "\<forall>(i, seq) \<in> set ?xs. length (sequence seq) < 2 ^ 64 - 1"
    using len by (auto dest: set_zip_rightD)
  have b: "match_count (MotifResult_of_pattern fp (pattern motif)) + length ?xs < 2 ^ 64"
    using n by (simp add: MotifResult_of_pattern_def)
  show ?thesis
    unfolding findSingleMotif_def Let_def scan_sequences_closed[OF a b]
    by (simp add: MotifResult_of_pattern_def calculateFrequency_def)
qed

lemma processSingleMotif_eq: "processSingleMotif = findSingleMotif"
  by (intro ext) (simp add: processSingleMotif_def findSingleMotif_def)

text \<open>
  Claim C3. For every list of sequences and every motif, \<open>findSingleMotif\<close> scans the
  sequences in input order; \<open>match_count\<close> is the number of sequences that contain at
  least one occurrence (one per sequence, however many occurrences it has); \<open>matches\<close>
  holds, for exactly those sequences and in input order, the record of the first
  occurrence only; \<open>frequency\<close> is \<open>match_count\<close> divided by the number of sequences
  (the \<open>double\<close> division of the two converted counts), and \<open>0.0\<close> for an empty list.
\<close>

theorem C3_aggregate:
  assumes "length sequences < 2 ^ 64"
      and "\<forall>s \<in> set sequences. length (sequence s) < 2 ^ 64 - 1"
  shows "\<exists>firsts.
           findSingleMotif fp this sequences motif =
             Inr \<lparr> motif_pattern = pattern motif,
                   match_count = length firsts,
                   frequency =
                     (if sequences = [] then dbl_zero fp
                      else dbl_div fp (dbl_of_size_t fp (length firsts))
                                      (dbl_of_size_t fp (length sequences))),
                   matches' = firsts \<rparr> \<and>
           firsts = first_matches this (pattern motif) (zip [0..<length sequences] sequences) \<and>
           length firsts = length (filter (has_occurrence this (pattern motif)) sequences) \<and>
           map sequence_index firsts =
             filter (\<lambda>i. has_occurrence this (pattern motif) (sequences ! i))
               [0..<length sequences] \<and>
           (\<forall>m \<in> set firsts.
              matchesMotif this (sequence (sequences ! sequence_index m)) (pattern motif)
                (position m) = Inr True \<and>
              (\<forall>pos < position m.
                 matchesMotif this (sequence (sequences ! sequence_index m)) (pattern motif) pos
                   \<noteq> Inr True) \<and>
              matched_sequence m =
                take (length (pattern motif))
                  (drop (position m) (sequence (sequences ! sequence_index m))))"
proof (intro exI conjI)
  let ?xs = "zip [0..<length sequences] sequences"
  let ?f = "first_matches this (pattern motif) ?xs"
  show "findSingleMotif fp this sequences motif =
          Inr \<lparr> motif_pattern = pattern motif, match_count = length ?f,
                frequency =
                  (if sequences = [] then dbl_zero fp
                   else dbl_div fp (dbl_of_size_t fp (length ?f))
                                   (dbl_of_size_t fp (length sequences))),
                matches' = ?f \<rparr>"
    by (rule findSingleMotif_closed[OF assms])
  show "?f = first_matches this (pattern motif) ?xs" by (rule refl)
  have idx: "map sequence_index ?f =
               map fst (filter (\<lambda>(i, seq). has_occurrence this (pattern motif) seq) ?xs)"
    by (rule first_matches_indices)
  show "map sequence_index ?f =
          filter (\<lambda>i. has_occurrence this (pattern motif) (sequences ! i)) [0..<length sequences]"
    by (simp only: idx enumerated_filter_indices)
  have "length ?f = length (map sequence_index ?f)" by simp
  also have "\<dots> = length (filter (\<lambda>(i, seq). has_occurrence this (pattern motif) seq) ?xs)"
    by (simp only: idx length_map)
  also have "\<dots> = length (filter (has_occurrence this (pattern motif)) sequences)"
    by (rule enumerated_filter_length)
  finally show "length ?f = length (filter (has_occurrence this (pattern motif)) sequences)" .
  show "\<forall>m \<in> set ?f.
          matchesMotif this (sequence (sequences ! sequence_index m)) (pattern motif)
            (position m) = Inr True \<and>
          (\<forall>pos < position m.
             matchesMotif this (sequence (sequences ! sequence_index m)) (pattern motif) pos
               \<noteq> Inr True) \<and>
          matched_sequence m =
            take (length (pattern motif))
              (drop (position m) (sequence (sequences ! sequence_index m)))"
  proof
    fix m assume "m \<in> set ?f"
    from first_matches_position[OF this] obtain seq where
      s: "(sequence_index m, seq) \<in> set ?xs"
      and p: "matchesMotif this (sequence seq) (pattern motif) (position m) = Inr True"
        "\<forall>pos < position m. matchesMotif this (sequence seq) (pattern motif) pos \<noteq> Inr True"
        "matched_sequence m = take (length (pattern motif)) (drop (position m) (sequence seq))"
      by blast
    from s have "seq = sequences ! sequence_index m" by (auto simp: in_set_zip)
    with p show "matchesMotif this (sequence (sequences ! sequence_index m)) (pattern motif)
            (position m) = Inr True \<and>
          (\<forall>pos < position m.
             matchesMotif this (sequence (sequences ! sequence_index m)) (pattern motif) pos
               \<noteq> Inr True) \<and>
          matched_sequence m =
            take (length (pattern motif))
              (drop (position m) (sequence (sequences ! sequence_index m)))"
      by simp
  qed
qed

theorem C3_aggregate_witness:
  "length [\<lparr> id' = ''s1'', sequence = ''ATGCATGC'', metadata = [] \<rparr>,
           \<lparr> id' = ''s2'', sequence = ''TTTT'', metadata = [] \<rparr>,
           \<lparr> id' = ''s3'', sequence = ''AATGC'', metadata = [] \<rparr>] < 2 ^ 64 \<and>
   findSingleMotif \<lparr> dbl_zero = 0, dbl_of_size_t = of_nat, dbl_div = (/) \<rparr> getInstance
       [\<lparr> id' = ''s1'', sequence = ''ATGCATGC'', metadata = [] \<rparr>,
        \<lparr> id' = ''s2'', sequence = ''TTTT'', metadata = [] \<rparr>,
        \<lparr> id' = ''s3'', sequence = ''AATGC'', metadata = [] \<rparr>]
       \<lparr> pattern = ''ATGC'', score1 = 1, score2 = 2, score3 = (3::rat) \<rparr> =
     Inr \<lparr> motif_pattern = ''ATGC'', match_count = 2, frequency = 2 / 3,
           matches' = [\<lparr> sequence_index = 0, position = 0, matched_sequence = ''ATGC'' \<rparr>,
                       \<lparr> sequence_index = 2, position = 1, matched_sequence = ''ATGC'' \<rparr>] \<rparr>"
proof -
  let ?seqs = "[\<lparr> id' = ''s1'', sequence = ''ATGCATGC'', metadata = [] \<rparr>,
                \<lparr> id' = ''s2'', sequence = ''TTTT'', metadata = [] \<rparr>,
                \<lparr> id' = ''s3'', sequence = ''AATGC'', metadata = [] \<rparr>]"
  let ?m = "\<lparr> pattern = ''ATGC'', score1 = 1, score2 = 2, score3 = (3::rat) \<rparr>"
  let ?fp = "\<lparr> dbl_zero = 0, dbl_of_size_t = of_nat, dbl_div = (/) \<rparr> :: rat double_ops"
  have h1: "length ?seqs < 2 ^ 64" by simp
  have h2: "\<forall>s \<in> set ?seqs. length (sequence s) < 2 ^ 64 - 1" by simp
  have o1: "matching_offsets getInstance ''ATGCATGC'' ''ATGC'' = [0, 4]"
    by (simp add: matching_offsets_def matchesMotif_def wrap64_def subscript_def upt_conv_Cons matcher_eval)
  have o2: "matching_offsets getInstance ''TTTT'' ''ATGC'' = []"
    by (simp add: matching_offsets_def matchesMotif_def wrap64_def subscript_def upt_conv_Cons matcher_eval)
  have o3: "matching_offsets getInstance ''AATGC'' ''ATGC'' = [1]"
    by (simp add: matching_offsets_def matchesMotif_def wrap64_def subscript_def upt_conv_Cons matcher_eval)
  have f: "first_matches getInstance (pattern ?m) (zip [0..<length ?seqs] ?seqs) =
             [\<lparr> sequence_index = 0, position = 0, matched_sequence = ''ATGC'' \<rparr>,
              \<lparr> sequence_index = 2, position = 1, matched_sequence = ''ATGC'' \<rparr>]"
    by (simp add: upt_conv_Cons o1 o2 o3)
  from C3_aggregate[OF h1 h2, of ?fp getInstance ?m] obtain firsts where
    r: "findSingleMotif ?fp getInstance ?seqs ?m =
          Inr \<lparr> motif_pattern = pattern ?m, match_count = length firsts,
                frequency = (if ?seqs = [] then dbl_zero ?fp
                             else dbl_div ?fp (dbl_of_size_t ?fp (length firsts))
                                    (dbl_of_size_t ?fp (length ?seqs))),
                matches' = firsts \<rparr>"
    and e: "firsts = first_matches getInstance (pattern ?m) (zip [0..<length ?seqs] ?seqs)"
    by blast
  from e f have "firsts = [\<lparr> sequence_index = 0, position = 0, matched_sequence = ''ATGC'' \<rparr>,
              \<lparr> sequence_index = 2, position = 1, matched_sequence = ''ATGC'' \<rparr>]" by simp
  with r h1 show ?thesis by simp
qed

lemma findSingleMotif_total:
  assumes "length sequences < 2 ^ 64"
      and "\<forall>s \<in> set sequences. length (sequence s) < 2 ^ 64 - 1"
  shows "\<exists>r. findSingleMotif fp this sequences motif = Inr r"
  using findSingleMotif_closed[OF assms] by blast

lemma data_race_schedule:
  "data_race (map (map f) schedule) =
     (1 < length (filter (\<lambda>indices. indices \<noteq> []) schedule))"
  by (simp add: data_race_def filter_map comp_def)

lemma batch_closed:
  assumes n: "length sequences < 2 ^ 64"
      and len: "\<forall>s \<in> set sequences. length (sequence s) < 2 ^ 64 - 1"
  obtains R where
      "\<And>motif. findSingleMotif fp this sequences motif = Inr (R motif)"
      "\<And>motifs. findMotifs fp this sequences motifs = Inr (map R motifs)"
      "\<And>motifs schedule. \<forall>i \<in> set (concat schedule). i < length motifs \<Longrightarrow>
          processMotifsParallel fp this schedule sequences motifs =
            (if 1 < length (filter (\<lambda>indices. indices \<noteq> []) schedule) then Inl DataRace
             else Inr (map (\<lambda>i. R (motifs ! i)) (concat schedule)))"
proof -
  from findSingleMotif_total[OF n len, of fp this]
  obtain R where R: "\<And>motif. findSingleMotif fp this sequences motif = Inr (R motif)"
    by metis
  have seq: "findMotifs fp this sequences motifs = Inr (map R motifs)" for motifs
    unfolding findMotifs_def processSingleMotif_eq
    by (rule copy_transform_total) (rule R)
  have thr: "thread_local_results fp this sequences motifs indices =
               Inr (map (\<lambda>i. R (motifs ! i)) indices, map (\<lambda>i. findSingleMotif_stat) indices)"
    if ok: "\<forall>i \<in> set indices. i < length motifs" for motifs indices
  proof -
    have "copy_transform
            (\<lambda>i. case subscript motifs i of
                    Inl e \<Rightarrow> Inl e
                  | Inr motif \<Rightarrow>
                      (case findSingleMotif fp this sequences motif of
                         Inl e \<Rightarrow> Inl e
                       | Inr result \<Rightarrow> Inr (result, findSingleMotif_stat)))
            indices =
          Inr (map (\<lambda>i. (R (motifs ! i), findSingleMotif_stat)) indices)"
      by (rule copy_transform_total) (use ok in \<open>simp add: subscript_def R\<close>)
    then show ?thesis by (simp add: thread_local_results_def comp_def)
  qed
  have par: "processMotifsParallel fp this schedule sequences motifs =
               (if 1 < length (filter (\<lambda>indices. indices \<noteq> []) schedule) then Inl DataRace
                else Inr (map (\<lambda>i. R (motifs ! i)) (concat schedule)))"
    if ok: "\<forall>i \<in> set (concat schedule). i < length motifs" for motifs schedule
  proof -
    have "copy_transform (thread_local_results fp this sequences motifs) schedule =
            Inr (map (\<lambda>indices. (map (\<lambda>i. R (motifs ! i)) indices,
                                    map (\<lambda>i. findSingleMotif_stat) indices)) schedule)"
      by (rule copy_transform_total) (use ok in \<open>auto intro!: thr\<close>)
    moreover have "map snd (map (\<lambda>indices. (map (\<lambda>i. R (motifs ! i)) indices,
                                    map (\<lambda>i. findSingleMotif_stat) indices)) schedule) =
                   map (map (\<lambda>i. findSingleMotif_stat)) schedule"
      by (simp add: comp_def)
    moreover have "concat (map fst (map (\<lambda>indices. (map (\<lambda>i. R (motifs ! i)) indices,
                                    map (\<lambda>i. findSingleMotif_stat) indices)) schedule)) =
                   map (\<lambda>i. R (motifs ! i)) (concat schedule)"
      by (simp add: comp_def map_concat)
    ultimately show ?thesis
      by (simp only: processMotifsParallel_def sum.case data_race_schedule)
  qed
  from R seq par show thesis by (rule that)
qed

text \<open>
  When at most one thread of the team runs iterations there is no race, and the parallel
  batch returns exactly the sequential results, in the order of the schedule.
\<close>

lemma parallel_one_thread_permutation:
  assumes "valid_schedule schedule (length motifs)"
      and "\<not> 1 < length (filter (\<lambda>indices. indices \<noteq> []) schedule)"
      and "length sequences < 2 ^ 64"
      and "\<forall>s \<in> set sequences. length (sequence s) < 2 ^ 64 - 1"
  shows "\<exists>par seq.
           processMotifsParallel fp this schedule sequences motifs = Inr par \<and>
           findMotifs fp this sequences motifs = Inr seq \<and>
           length seq = length motifs \<and>
           (\<forall>i < length motifs. findSingleMotif fp this sequences (motifs ! i) = Inr (seq ! i)) \<and>
           par = map (\<lambda>i. seq ! i) (concat schedule) \<and>
           mset par = mset seq"
proof -
  from batch_closed[OF assms(3,4), of fp this] obtain R where
      R: "\<And>motif. findSingleMotif fp this sequences motif = Inr (R motif)"
      and seq: "\<And>motifs. findMotifs fp this sequences motifs = Inr (map R motifs)"
      and par: "\<And>motifs schedule. \<forall>i \<in> set (concat schedule). i < length motifs \<Longrightarrow>
          processMotifsParallel fp this schedule sequences motifs =
            (if 1 < length (filter (\<lambda>indices. indices \<noteq> []) schedule) then Inl DataRace
             else Inr (map (\<lambda>i. R (motifs ! i)) (concat schedule)))"
    by blast
  from assms(1) have ms: "mset (concat schedule) = mset [0..<length motifs]"
    by (simp add: valid_schedule_def)
  then have "set (concat schedule) = set [0..<length motifs]" by (rule mset_eq_setD)
  then have ok: "\<forall>i \<in> set (concat schedule). i < length motifs" by simp
  let ?par = "map (\<lambda>i. R (motifs ! i)) (concat schedule)"
  let ?seq = "map R motifs"
  have p: "processMotifsParallel fp this schedule sequences motifs = Inr ?par"
    using par[OF ok] assms(2) by simp
  have eq: "?par = map (\<lambda>i. ?seq ! i) (concat schedule)"
    using ok by simp
  have "mset ?par = image_mset (\<lambda>i. ?seq ! i) (mset (concat schedule))"
    by (simp only: eq mset_map)
  also have "\<dots> = image_mset (\<lambda>i. ?seq ! i) (mset [0..<length ?seq])"
    by (simp only: ms length_map)
  also have "\<dots> = mset (map (\<lambda>i. ?seq ! i) [0..<length ?seq])"
    by (simp only: mset_map)
  also have "\<dots> = mset ?seq" by (simp only: map_nth)
  finally have perm: "mset ?par = mset ?seq" .
  have each: "\<forall>i < length motifs. findSingleMotif fp this sequences (motifs ! i) = Inr (?seq ! i)"
    by (simp add: R)
  from p seq[of motifs] eq perm each show ?thesis
    by (intro exI[of _ ?par] exI[of _ ?seq]) simp
qed

text \<open>
  When two threads of the team each run an iteration, both write the shared
  \<open>performance_stats_\<close> with nothing between the writes: the parallel batch has no
  defined result, while the sequential batch on the same input returns its list.
\<close>

lemma parallel_two_threads_race:
  assumes "valid_schedule schedule (length motifs)"
      and "1 < length (filter (\<lambda>indices. indices \<noteq> []) schedule)"
      and "length sequences < 2 ^ 64"
      and "\<forall>s \<in> set sequences. length (sequence s) < 2 ^ 64 - 1"
  shows "processMotifsParallel fp this schedule sequences motifs = Inl DataRace \<and>
         (\<exists>seq. findMotifs fp this sequences motifs = Inr seq \<and> length seq = length motifs)"
proof -
  from batch_closed[OF assms(3,4), of fp this] obtain R where
      R: "\<And>motif. findSingleMotif fp this sequences motif = Inr (R motif)"
      and seq: "\<And>motifs. findMotifs fp this sequences motifs = Inr (map R motifs)"
      and par: "\<And>motifs schedule. \<forall>i \<in> set (concat schedule). i < length motifs \<Longrightarrow>
          processMotifsParallel fp this schedule sequences motifs =
            (if 1 < length (filter (\<lambda>indices. indices \<noteq> []) schedule) then Inl DataRace
             else Inr (map (\<lambda>i. R (motifs ! i)) (concat schedule)))"
    by blast
  from assms(1) have "mset (concat schedule) = mset [0..<length motifs]"
    by (simp add: valid_schedule_def)
  then have "set (concat schedule) = set [0..<length motifs]" by (rule mset_eq_setD)
  then have ok: "\<forall>i \<in> set (concat schedule). i < length motifs" by simp
  have p: "processMotifsParallel fp this schedule sequences motifs = Inl DataRace"
    using par[OF ok] assms(2) by simp
  have "findMotifs fp this sequences motifs = Inr (map R motifs) \<and>
        length (map R motifs) = length motifs"
    using seq[of motifs] by simp
  then have "\<exists>seq. findMotifs fp this sequences motifs = Inr seq \<and> length seq = length motifs"
    by (rule exI)
  with p show ?thesis by (rule conjI)
qed

text \<open>
  Claim C7, at a run where it fails. Two sequences, two motifs and a team of two
  threads, each handed one loop index: both threads call \<open>findSingleMotif\<close> on the one
  \<open>MotifFinder\<close>, and both calls assign to its \<open>performance_stats_\<close> map outside the
  critical section. That is a data race; the parallel batch has no defined result and
  does not yield a permutation of what \<open>findMotifs\<close> returns for the same input. With a
  single thread running all iterations the claim holds (lemma
  \<open>parallel_one_thread_permutation\<close>).
\<close>

theorem C7_two_threads_race:
  "valid_schedule [[0], [1]]
     (length [\<lparr> pattern = ''ATGC'', score1 = 1, score2 = 2, score3 = (3::rat) \<rparr>,
              \<lparr> pattern = ''TT'', score1 = 1, score2 = 2, score3 = 3 \<rparr>]) \<and>
   processMotifsParallel \<lparr> dbl_zero = 0, dbl_of_size_t = of_nat, dbl_div = (/) \<rparr> getInstance
     [[0], [1]]
     [\<lparr> id' = ''s1'', sequence = ''ATGCATGC'', metadata = [] \<rparr>,
      \<lparr> id' = ''s2'', sequence = ''TTTT'', metadata = [] \<rparr>]
     [\<lparr> pattern = ''ATGC'', score1 = 1, score2 = 2, score3 = (3::rat) \<rparr>,
      \<lparr> pattern = ''TT'', score1 = 1, score2 = 2, score3 = 3 \<rparr>] = Inl DataRace \<and>
   undefined_behaviour DataRace \<and>
   (\<exists>seq.
      findMotifs \<lparr> dbl_zero = 0, dbl_of_size_t = of_nat, dbl_div = (/) \<rparr> getInstance
        [\<lparr> id' = ''s1'', sequence = ''ATGCATGC'', metadata = [] \<rparr>,
         \<lparr> id' = ''s2'', sequence = ''TTTT'', metadata = [] \<rparr>]
        [\<lparr> pattern = ''ATGC'', score1 = 1, score2 = 2, score3 = (3::rat) \<rparr>,
         \<lparr> pattern = ''TT'', score1 = 1, score2 = 2, score3 = 3 \<rparr>] = Inr seq \<and>
      length seq = 2)"
proof -
  let ?seqs = "[\<lparr> id' = ''s1'', sequence = ''ATGCATGC'', metadata = [] \<rparr>,
                \<lparr> id' = ''s2'', sequence = ''TTTT'', metadata = [] \<rparr>]"
  let ?ms = "[\<lparr> pattern = ''ATGC'', score1 = 1, score2 = 2, score3 = (3::rat) \<rparr>,
              \<lparr> pattern = ''TT'', score1 = 1, score2 = 2, score3 = 3 \<rparr>]"
  let ?fp = "\<lparr> dbl_zero = 0, dbl_of_size_t = of_nat, dbl_div = (/) \<rparr> :: rat double_ops"
  have h1: "valid_schedule [[0], [1]] (length ?ms)"
    by (simp add: valid_schedule_def upt_conv_Cons)
  have h2: "1 < length (filter (\<lambda>indices. indices \<noteq> []) [[0::nat], [1]])" by simp
  have h3: "length ?seqs < 2 ^ 64" by simp
  have h4: "\<forall>s \<in> set ?seqs. length (sequence s) < 2 ^ 64 - 1" by simp
  have l: "length ?ms = 2" by simp
  have u: "undefined_behaviour DataRace" by simp
  note t = parallel_two_threads_race[OF h1 h2 h3 h4, of ?fp getInstance]
  have r: "processMotifsParallel ?fp getInstance [[0], [1]] ?seqs ?ms = Inl DataRace"
    using t by (rule conjunct1)
  have "\<exists>seq. findMotifs ?fp getInstance ?seqs ?ms = Inr seq \<and> length seq = length ?ms"
    using t by (rule conjunct2)
  then have q: "\<exists>seq. findMotifs ?fp getInstance ?seqs ?ms = Inr seq \<and> length seq = 2"
    by (simp only: l)
  show ?thesis by (intro conjI h1 r u q)
qed

section \<open>Encoding and decoding the three collectives\<close>

lemma recv_head: "recv t ((t, p) # q) = Inr (p, q)"
  by (simp add: recv_def extract_Cons_code)

lemma recv_int_head: "recv_int t ((t, MPI_INT v) # q) = Inr (v, q)"
  by (simp add: recv_int_def recv_head)

lemma recv_unsigned_long_head: "recv_unsigned_long t ((t, MPI_UNSIGNED_LONG v) # q) = Inr (v, q)"
  by (simp add: recv_unsigned_long_def recv_head)

lemma int_of_size_t_fits: "fits_int n \<Longrightarrow> int_of_size_t n = int n"
  unfolding fits_int_def by (rule int_of_size_t_small)

lemma send_string_fits:
  "fits_int (length s) \<Longrightarrow> send_string a b s = Inr (wire_string a b s)"
  by (simp add: send_string_def wire_string_def int_of_size_t_fits)

lemma recv_string_wire: "recv_string a b (wire_string a b s @ q) = Inr (s, q)"
  by (simp add: recv_string_def wire_string_def recv_int_head zero_string_def recv_chars_def
        recv_head fill_def)

lemma append_each_total:
  "(\<And>x. x \<in> set xs \<Longrightarrow> f x = Inr (g x)) \<Longrightarrow> append_each f xs = Inr (concat (map g xs))"
  by (induction xs) auto

lemma recv_times_wire:
  "(\<And>x q. x \<in> set xs \<Longrightarrow> dec (enc x @ q) = Inr (x, q)) \<Longrightarrow>
     recv_times (length xs) dec (concat (map enc xs) @ q) = Inr (xs, q)"
  by (induction xs) auto

lemma send_sequence_fits:
  assumes "sequence_fits seq"
  shows "send_sequence seq = Inr (wire_sequence seq)"
proof -
  from assms have a: "fits_int (length (id' seq))" "fits_int (length (sequence seq))"
      "fits_int (length (metadata seq))"
      and m: "\<And>x. x \<in> set (metadata seq) \<Longrightarrow> fits_int (length x)"
    by (auto simp: sequence_fits_def list_all_iff)
  have "append_each (send_string 7 8) (metadata seq) =
          (Inr (concat (map (wire_string 7 8) (metadata seq))) :: fault + 'a message list)"
    by (rule append_each_total) (simp add: send_string_fits m)
  then show ?thesis
    by (simp add: send_sequence_def wire_sequence_def send_string_fits a int_of_size_t_fits)
qed

lemma recv_sequence_wire:
  "recv_sequence (wire_sequence seq @ (q :: 'd message list)) = Inr (seq, q)"
proof -
  have m: "recv_times (length (metadata seq)) (recv_string 7 8)
             (concat (map (wire_string 7 8) (metadata seq)) @ q) = Inr (metadata seq, q)"
    by (rule recv_times_wire) (rule recv_string_wire)
  show ?thesis
    unfolding recv_sequence_def wire_sequence_def append_assoc recv_string_wire
    by (simp add: recv_string_wire recv_int_head m)
qed

lemma distributeSequences_worker_wire:
  "distributeSequences_worker (wire_scatter N xs :: 'd message list) = Inr xs"
proof -
  have "recv_times (length xs) recv_sequence
          (concat (map wire_sequence xs) @ ([] :: 'd message list)) = Inr (xs, [])"
    by (rule recv_times_wire) (rule recv_sequence_wire)
  then show ?thesis
    by (simp add: distributeSequences_worker_def wire_scatter_def recv_unsigned_long_head)
qed

lemma slice_end_le:
  assumes "r < P"
  shows "fst (slice_formula N P r) + snd (slice_formula N P r) \<le> N"
proof -
  have "fst (slice_formula N P r) + snd (slice_formula N P r) = fst (slice_formula N P (Suc r))"
    by (simp only: start_step)
  also have "\<dots> = Suc r * (N div P) + min (Suc r) (N mod P)" by (simp add: slice_formula_def)
  also have "\<dots> \<le> P * (N div P) + N mod P"
    using assms by (intro add_mono mult_le_mono1) simp_all
  also have "\<dots> = N" by simp
  finally show ?thesis .
qed

lemma take_drop_nth:
  "s + n \<le> length xs \<Longrightarrow> map (\<lambda>i. xs ! (s + i)) [0..<n] = take n (drop s xs)"
  by (rule nth_equalityI) simp_all

lemma send_slice_closed:
  assumes N: "length all_sequences < 2 ^ 64" and P: "P < 2 ^ 31" and r: "r < P"
      and fits: "\<forall>s \<in> set all_sequences. sequence_fits s"
  shows "send_slice all_sequences (int P) r =
           (Inr (map (Pair r)
                  ((1, MPI_UNSIGNED_LONG (length (slice_of all_sequences P r))) #
                   concat (map wire_sequence (slice_of all_sequences P r))))
             :: fault + 'd send list)"
proof -
  let ?N = "length all_sequences"
  obtain st cn where sf: "slice_formula ?N P r = (st, cn)" by (cases "slice_formula ?N P r")
  have cwd: "calculateWorkDistribution ?N (int r) (int P) = Inr (st, cn)"
    using cwd_closed[OF N P r] sf by simp
  have le: "st + cn \<le> ?N" using slice_end_le[OF r, of ?N] sf by simp
  have sl: "slice_of all_sequences P r = take cn (drop st all_sequences)"
    by (simp add: slice_of_def sf)
  have len: "length (slice_of all_sequences P r) = cn" using le by (simp add: sl)
  have each: "(case subscript all_sequences (wrap64 (st + i)) of
                 Inl e \<Rightarrow> Inl e
               | Inr seq \<Rightarrow> send_sequence seq) =
              (Inr (wire_sequence (all_sequences ! (st + i))) :: fault + 'd message list)"
    if "i \<in> set [0..<cn]" for i
  proof -
    from that le have lt: "st + i < ?N" by simp
    with N have "st + i < 2 ^ 64" by simp
    then have w: "wrap64 (st + i) = st + i" by (rule wrap64_less)
    from lt fits have "sequence_fits (all_sequences ! (st + i))" by simp
    then show ?thesis using lt by (simp add: w subscript_def send_sequence_fits)
  qed
  have "append_each
          (\<lambda>i. case subscript all_sequences (wrap64 (st + i)) of
                  Inl e \<Rightarrow> Inl e
                | Inr seq \<Rightarrow> send_sequence seq) [0..<cn] =
        (Inr (concat (map (\<lambda>i. wire_sequence (all_sequences ! (st + i))) [0..<cn]))
           :: fault + 'd message list)"
    by (rule append_each_total[OF each])
  moreover have "map (\<lambda>i. wire_sequence (all_sequences ! (st + i))) [0..<cn] =
                 (map wire_sequence (slice_of all_sequences P r) :: 'd message list list)"
    unfolding sl take_drop_nth[OF le, symmetric] by (simp add: comp_def)
  ultimately show ?thesis
    by (simp add: send_slice_def cwd len)
qed

lemma channel_concat:
  assumes "distinct ds" and "r \<in> set ds" and "\<And>d. d \<in> set ds \<Longrightarrow> f d = map (Pair d) (g d)"
  shows "channel r (concat (map f ds)) = g r"
  using assms
proof (induction ds)
  case Nil
  then show ?case by simp
next
  case (Cons d ds)
  have fd: "f d = map (Pair d) (g d)" using Cons.prems(3) by simp
  show ?case
  proof (cases "r = d")
    case True
    with Cons.prems(1) have "r \<notin> set ds" by simp
    have rest: "channel r (concat (map f ds)) = []"
    proof -
      have "\<forall>m \<in> set (concat (map f ds)). fst m \<noteq> r"
        using Cons.prems(3) \<open>r \<notin> set ds\<close> by fastforce
      then show ?thesis by (simp add: channel_def filter_empty_conv)
    qed
    have "channel r (f d) = g r" using True fd by (simp add: channel_def comp_def)
    with rest show ?thesis by (simp add: channel_def)
  next
    case False
    with Cons.prems have "r \<in> set ds" "distinct ds" by simp_all
    from Cons.IH[OF this(2,1)] Cons.prems(3) have "channel r (concat (map f ds)) = g r" by simp
    moreover have "channel r (f d) = []" using False fd by (simp add: channel_def filter_empty_conv)
    ultimately show ?thesis by (simp add: channel_def)
  qed
qed

lemma channel_append: "channel r (a @ b) = channel r a @ channel r b"
  by (simp add: channel_def)

lemma distributeSequences_master_closed:
  assumes N: "length all_sequences < 2 ^ 64" and P0: "0 < P" and P: "P < 2 ^ 31"
      and fits: "\<forall>s \<in> set all_sequences. sequence_fits s"
  shows "distributeSequences_master (int P) all_sequences =
           (Inr (map (\<lambda>dest. (dest, (0, MPI_UNSIGNED_LONG (length all_sequences)))) [1..<P] @
                 concat (map (\<lambda>dest. map (Pair dest)
                                ((1, MPI_UNSIGNED_LONG (length (slice_of all_sequences P dest))) #
                                 concat (map wire_sequence (slice_of all_sequences P dest))))
                           [1..<P]),
                 slice_of all_sequences P 0)
             :: fault + 'd send list \<times> ChIPSequence list)"
proof -
  let ?N = "length all_sequences"
  have slices: "append_each (send_slice all_sequences (int P)) [1..<P] =
          (Inr (concat (map (\<lambda>dest. map (Pair dest)
                                ((1, MPI_UNSIGNED_LONG (length (slice_of all_sequences P dest))) #
                                 concat (map wire_sequence (slice_of all_sequences P dest))))
                           [1..<P])) :: fault + 'd send list)"
    by (rule append_each_total) (simp add: send_slice_closed[OF N P _ fits])
  obtain st cn where sf: "slice_formula ?N P 0 = (st, cn)" by (cases "slice_formula ?N P 0")
  have cwd: "calculateWorkDistribution ?N 0 (int P) = Inr (st, cn)"
    using cwd_closed[OF N P P0] sf by simp
  have le: "st + cn \<le> ?N" using slice_end_le[OF P0, of ?N] sf by simp
  have sl: "slice_of all_sequences P 0 = take cn (drop st all_sequences)"
    by (simp add: slice_of_def sf)
  show ?thesis
    unfolding distributeSequences_master_def Let_def nat_int slices cwd sl
    by (simp add: le)
qed

lemma scatter_channel:
  assumes r: "1 \<le> r" "r < P"
  shows "channel r
           (map (\<lambda>dest. (dest, (0, MPI_UNSIGNED_LONG N))) [1..<P] @
            concat (map (\<lambda>dest. map (Pair dest)
                           ((1, MPI_UNSIGNED_LONG (length (slice_of xs P dest))) #
                            concat (map wire_sequence (slice_of xs P dest))))
                      [1..<P])) =
         (wire_scatter N (slice_of xs P r) :: 'd message list)"
proof -
  have d: "distinct [1..<P]" and m: "r \<in> set [1..<P]" using r by simp_all
  have "map (\<lambda>dest. (dest, (0, MPI_UNSIGNED_LONG N))) [1..<P] =
        (concat (map (\<lambda>dest. map (Pair dest) [(0, MPI_UNSIGNED_LONG N)]) [1..<P]) :: 'd send list)"
    by (induction P) simp_all
  then have a: "channel r (map (\<lambda>dest. (dest, (0, MPI_UNSIGNED_LONG N))) [1..<P]) =
             ([(0, MPI_UNSIGNED_LONG N)] :: 'd message list)"
    using channel_concat[OF d m, of "\<lambda>dest. map (Pair dest) [(0, MPI_UNSIGNED_LONG N)]"
            "\<lambda>_. [(0, MPI_UNSIGNED_LONG N)]"]
    by simp
  have b: "channel r (concat (map (\<lambda>dest. map (Pair dest)
                           ((1, MPI_UNSIGNED_LONG (length (slice_of xs P dest))) #
                            concat (map wire_sequence (slice_of xs P dest))))
                      [1..<P])) =
           ((1, MPI_UNSIGNED_LONG (length (slice_of xs P r))) #
              concat (map wire_sequence (slice_of xs P r)) :: 'd message list)"
    by (rule channel_concat[OF d m]) (rule refl)
  show ?thesis by (simp only: channel_append a b wire_scatter_def append_Cons append_Nil)
qed

lemma wire_sequence_widths:
  "m \<in> set (wire_sequence seq) \<Longrightarrow> integer_width (snd m) = Some 32 \<or> integer_width (snd m) = None"
  by (auto simp: wire_sequence_def wire_string_def)

lemma recv_times_wire_map:
  "(\<And>x q. x \<in> set xs \<Longrightarrow> dec (enc x @ q) = Inr (h x, q)) \<Longrightarrow>
     recv_times (length xs) dec (concat (map enc xs) @ q) = Inr (map h xs, q)"
  by (induction xs) auto

lemma bcast_motif_fits:
  "fits_int (length (pattern motif)) \<Longrightarrow> bcast_motif motif = Inr (wire_motif motif)"
  by (simp add: bcast_motif_def wire_motif_def int_of_size_t_fits)

lemma recv_motif_wire: "recv_motif (wire_motif motif @ q) = Inr (motif, q)"
  by (simp add: recv_motif_def wire_motif_def bcast_int_def zero_string_def bcast_chars_def
        bcast_doubles_def)

lemma broadcastMotifs_master_closed:
  assumes "fits_int (length motifs)" and "\<forall>m \<in> set motifs. fits_int (length (pattern m))"
  shows "broadcastMotifs_master motifs = Inr (wire_broadcast motifs, motifs)"
proof -
  have "append_each bcast_motif motifs = Inr (concat (map wire_motif motifs))"
    by (rule append_each_total) (simp add: bcast_motif_fits assms(2))
  then show ?thesis
    by (simp add: broadcastMotifs_master_def wire_broadcast_def int_of_size_t_fits assms(1))
qed

lemma broadcastMotifs_worker_wire: "broadcastMotifs_worker (wire_broadcast motifs) = Inr motifs"
proof -
  have "recv_times (length motifs) recv_motif (concat (map wire_motif motifs) @ []) =
          Inr (motifs, [])"
    by (rule recv_times_wire) (rule recv_motif_wire)
  then show ?thesis
    by (simp add: broadcastMotifs_worker_def wire_broadcast_def bcast_int_def)
qed

lemma send_result_fits:
  "fits_int (length (motif_pattern result)) \<Longrightarrow> send_result result = Inr (wire_result result)"
  by (simp add: send_result_def wire_result_def send_string_fits)

lemma recv_result_wire:
  "recv_result fp (wire_result result @ q) = Inr (without_matches result, q)"
  unfolding recv_result_def wire_result_def append_assoc Let_def
  by (simp add: recv_string_wire recv_unsigned_long_head recv_doubles_def recv_head fill_def
        MotifResult_of_pattern_def without_matches_def)

lemma gatherResults_worker_closed:
  assumes "fits_int (length results)" and "\<forall>x \<in> set results. fits_int (length (motif_pattern x))"
  shows "gatherResults_worker results = Inr (wire_gather results)"
proof -
  have "append_each send_result results = Inr (concat (map wire_result results))"
    by (rule append_each_total) (simp add: send_result_fits assms(2))
  then show ?thesis
    by (simp add: gatherResults_worker_def wire_gather_def int_of_size_t_fits assms(1))
qed

lemma recv_results_wire: "recv_results fp (wire_gather results) = Inr (map without_matches results)"
proof -
  have "recv_times (length results) (recv_result fp) (concat (map wire_result results) @ []) =
          Inr (map without_matches results, [])"
    by (rule recv_times_wire_map) (rule recv_result_wire)
  then show ?thesis
    by (simp add: recv_results_def wire_gather_def recv_int_head)
qed

lemma gatherResults_master_closed:
  assumes "\<forall>src \<in> set [1..<P]. from_rank src = wire_gather (results_of src)"
  shows "gatherResults_master fp (int P) from_rank local_results =
           Inr (local_results @ concat (map (\<lambda>src. map without_matches (results_of src)) [1..<P]))"
proof -
  have "append_each (\<lambda>src. recv_results fp (from_rank src)) [1..<P] =
          Inr (concat (map (\<lambda>src. map without_matches (results_of src)) [1..<P]))"
    by (rule append_each_total) (simp add: assms recv_results_wire)
  then show ?thesis by (simp add: gatherResults_master_def)
qed

lemmas wire_eval = send_string_def int_of_size_t_def send_sequence_def send_result_def
  recv_def extract_Cons_code recv_int_def recv_unsigned_long_def recv_chars_def recv_doubles_def
  recv_string_def zero_string_def fill_def

text \<open>
  Claim C5 says that every round trip reproduces the original records exactly. For the
  gather it does not: a result with one match record is encoded without its \<open>matches\<close>,
  and what the master decodes has none.
\<close>

theorem C5_gather_drops_matches:
  "gatherResults_worker
     [\<lparr> motif_pattern = ''AT'', match_count = 1, frequency = (1::rat),
         matches' = [\<lparr> sequence_index = 0, position = 2, matched_sequence = ''AT'' \<rparr>] \<rparr>] =
     Inr [(0, MPI_INT 1), (1, MPI_INT 2), (2, MPI_CHAR ''AT''),
          (3, MPI_UNSIGNED_LONG 1), (4, MPI_DOUBLE [1])] \<and>
   recv_results \<lparr> dbl_zero = 0, dbl_of_size_t = of_nat, dbl_div = (/) \<rparr>
     [(0, MPI_INT 1), (1, MPI_INT 2), (2, MPI_CHAR ''AT''),
      (3, MPI_UNSIGNED_LONG 1), (4, MPI_DOUBLE [1::rat])] =
     Inr [\<lparr> motif_pattern = ''AT'', match_count = 1, frequency = 1, matches' = [] \<rparr>] \<and>
   [\<lparr> motif_pattern = ''AT'', match_count = 1, frequency = (1::rat), matches' = [] \<rparr>] \<noteq>
   [\<lparr> motif_pattern = ''AT'', match_count = 1, frequency = 1,
       matches' = [\<lparr> sequence_index = 0, position = 2, matched_sequence = ''AT'' \<rparr>] \<rparr>]"
  by (simp add: gatherResults_worker_def recv_results_def recv_result_def
        MotifResult_of_pattern_def wire_eval)

text \<open>
  Claim C5, as the code has it. For strings and counts that fit the \<open>int\<close> length fields
  (below \<open>2 ^ 31\<close>): what a worker decodes from the scatter messages the master sent to
  it is exactly its slice of the original sequence list, ids, symbols and metadata
  included, and the master keeps slice 0; what a worker decodes from the broadcast is
  exactly the original motif list, patterns and scores; what the master decodes from a
  worker's gather messages is the worker's result list with \<open>motif_pattern\<close>,
  \<open>match_count\<close> and \<open>frequency\<close> of every result unchanged and with every \<open>matches\<close>
  list empty, since match records are not transmitted.
\<close>

theorem C5_round_trip:
  fixes motifs :: "'d Motif list" and results :: "'d MotifResult list"
  assumes "length all_sequences < 2 ^ 64"
      and "\<forall>s \<in> set all_sequences. sequence_fits s"
      and "1 \<le> r" and "r < P" and "P < 2 ^ 31"
      and "fits_int (length motifs)"
      and "\<forall>m \<in> set motifs. fits_int (length (pattern m))"
      and "fits_int (length results)"
      and "\<forall>x \<in> set results. fits_int (length (motif_pattern x))"
  shows "(\<exists>(sends :: 'd send list) local.
            distributeSequences_master (int P) all_sequences = Inr (sends, local) \<and>
            local = slice_of all_sequences P 0 \<and>
            distributeSequences_worker (channel r sends) = Inr (slice_of all_sequences P r)) \<and>
         (\<exists>stream.
            broadcastMotifs_master motifs = Inr (stream, motifs) \<and>
            broadcastMotifs_worker stream = Inr motifs) \<and>
         (\<exists>msgs.
            gatherResults_worker results = Inr msgs \<and>
            recv_results fp msgs = Inr (map without_matches results) \<and>
            map motif_pattern (map without_matches results) = map motif_pattern results \<and>
            map match_count (map without_matches results) = map match_count results \<and>
            map frequency (map without_matches results) = map frequency results)"
proof (intro conjI)
  from assms(3,4) have P0: "0 < P" by simp
  show "\<exists>(sends :: 'd send list) local.
            distributeSequences_master (int P) all_sequences = Inr (sends, local) \<and>
            local = slice_of all_sequences P 0 \<and>
            distributeSequences_worker (channel r sends) = Inr (slice_of all_sequences P r)"
  proof -
    let ?sends = "map (\<lambda>dest. (dest, (0, MPI_UNSIGNED_LONG (length all_sequences)))) [1..<P] @
                 concat (map (\<lambda>dest. map (Pair dest)
                                ((1, MPI_UNSIGNED_LONG (length (slice_of all_sequences P dest))) #
                                 concat (map wire_sequence (slice_of all_sequences P dest))))
                           [1..<P]) :: 'd send list"
    have m: "distributeSequences_master (int P) all_sequences =
               Inr (?sends, slice_of all_sequences P 0)"
      by (rule distributeSequences_master_closed[OF assms(1) P0 assms(5,2)])
    have "distributeSequences_worker (channel r ?sends) = Inr (slice_of all_sequences P r)"
      by (simp only: scatter_channel[OF assms(3,4)] distributeSequences_worker_wire)
    with m show ?thesis by blast
  qed
  show "\<exists>stream.
            broadcastMotifs_master motifs = Inr (stream, motifs) \<and>
            broadcastMotifs_worker stream = Inr motifs"
    using broadcastMotifs_master_closed[OF assms(6,7)]
    by (simp add: broadcastMotifs_worker_wire)
  show "\<exists>msgs.
            gatherResults_worker results = Inr msgs \<and>
            recv_results fp msgs = Inr (map without_matches results) \<and>
            map motif_pattern (map without_matches results) = map motif_pattern results \<and>
            map match_count (map without_matches results) = map match_count results \<and>
            map frequency (map without_matches results) = map frequency results"
    using gatherResults_worker_closed[OF assms(8,9)]
    by (simp add: recv_results_wire without_matches_def comp_def)
qed

text \<open>
  Claim C6 says that every integer on the wire is a 32-bit count. The first two messages
  of a scatter, the total and the local count, are sent as \<open>MPI_UNSIGNED_LONG\<close>, the
  64-bit \<open>size_t\<close>: here for two sequences and two ranks.
\<close>

theorem C6_first_message_is_64_bit:
  "distributeSequences_master 2
     [\<lparr> id' = ''s1'', sequence = ''ACGT'', metadata = [''m''] \<rparr>,
      \<lparr> id' = ''s2'', sequence = ''TT'', metadata = [] \<rparr>] =
     Inr ([(1, 0, MPI_UNSIGNED_LONG 2), (1, 1, MPI_UNSIGNED_LONG 1),
           (1, 2, MPI_INT 2), (1, 3, MPI_CHAR ''s2''),
           (1, 4, MPI_INT 2), (1, 5, MPI_CHAR ''TT''),
           (1, 6, (MPI_INT 0 :: rat payload))],
          [\<lparr> id' = ''s1'', sequence = ''ACGT'', metadata = [''m''] \<rparr>]) \<and>
   integer_width (MPI_UNSIGNED_LONG 2 :: rat payload) = Some 64 \<and>
   integer_width (MPI_UNSIGNED_LONG 2 :: rat payload) \<noteq> Some 32"
  by (simp add: distributeSequences_master_def send_slice_def calculateWorkDistribution_def
        size_t_div_def size_t_mod_def size_t_of_int_def wrap64_def subscript_def upt_conv_Cons
        wire_eval)

text \<open>
  Claim C6, as the code has it. What the master sends to one destination is: the total
  sequence count and then the local count, each one 64-bit \<open>unsigned long\<close>; then, for
  each sequence of the destination's slice, the id and the symbol string, each preceded
  by its own length as a 32-bit \<open>int\<close>, the metadata count as a 32-bit \<open>int\<close>, and the
  metadata strings, each preceded by its own 32-bit length. After the first two
  messages every integer on the wire is 32 bits wide.
\<close>

theorem C6_scatter_format:
  assumes "length all_sequences < 2 ^ 64"
      and "\<forall>s \<in> set all_sequences. sequence_fits s"
      and "1 \<le> r" and "r < P" and "P < 2 ^ 31"
  shows "\<exists>(sends :: 'd send list) local.
           distributeSequences_master (int P) all_sequences = Inr (sends, local) \<and>
           channel r sends =
             [(0, MPI_UNSIGNED_LONG (length all_sequences)),
              (1, MPI_UNSIGNED_LONG (length (slice_of all_sequences P r)))] @
             concat (map wire_sequence (slice_of all_sequences P r)) \<and>
           map (integer_width \<circ> snd) (take 2 (channel r sends)) = [Some 64, Some 64] \<and>
           (\<forall>m \<in> set (drop 2 (channel r sends)).
              integer_width (snd m) = Some 32 \<or> integer_width (snd m) = None)"
proof -
  from assms(3,4) have P0: "0 < P" by simp
  let ?sends = "map (\<lambda>dest. (dest, (0, MPI_UNSIGNED_LONG (length all_sequences)))) [1..<P] @
                 concat (map (\<lambda>dest. map (Pair dest)
                                ((1, MPI_UNSIGNED_LONG (length (slice_of all_sequences P dest))) #
                                 concat (map wire_sequence (slice_of all_sequences P dest))))
                           [1..<P]) :: 'd send list"
  have ch: "channel r ?sends = wire_scatter (length all_sequences) (slice_of all_sequences P r)"
    by (rule scatter_channel[OF assms(3,4)])
  have w: "\<forall>m \<in> set (concat (map wire_sequence (slice_of all_sequences P r)) :: 'd message list).
             integer_width (snd m) = Some 32 \<or> integer_width (snd m) = None"
    using wire_sequence_widths by fastforce
  have m: "distributeSequences_master (int P) all_sequences =
             Inr (?sends, slice_of all_sequences P 0)"
    by (rule distributeSequences_master_closed[OF assms(1) P0 assms(5,2)])
  have c1: "channel r ?sends =
             [(0, MPI_UNSIGNED_LONG (length all_sequences)),
              (1, MPI_UNSIGNED_LONG (length (slice_of all_sequences P r)))] @
             concat (map wire_sequence (slice_of all_sequences P r))"
    by (simp only: ch wire_scatter_def)
  have c2: "map (integer_width \<circ> snd) (take 2 (channel r ?sends)) = [Some 64, Some 64]"
    unfolding c1 by simp
  have c3: "\<forall>m \<in> set (drop 2 (channel r ?sends)).
              integer_width (snd m) = Some 32 \<or> integer_width (snd m) = None"
    unfolding c1 using w by simp
  show ?thesis
    by (rule exI[of _ ?sends], rule exI[of _ "slice_of all_sequences P 0"])
       (intro conjI m c1 c2 c3)
qed

theorem C5_round_trip_witness:
  "sequence_fits \<lparr> id' = ''s1'', sequence = ''ACGT'', metadata = [''m''] \<rparr> \<and>
   sequence_fits \<lparr> id' = ''s2'', sequence = ''TT'', metadata = [] \<rparr> \<and>
   (\<exists>(sends :: rat send list) local.
      distributeSequences_master 2
        [\<lparr> id' = ''s1'', sequence = ''ACGT'', metadata = [''m''] \<rparr>,
         \<lparr> id' = ''s2'', sequence = ''TT'', metadata = [] \<rparr>] = Inr (sends, local) \<and>
      local = [\<lparr> id' = ''s1'', sequence = ''ACGT'', metadata = [''m''] \<rparr>] \<and>
      distributeSequences_worker (channel 1 sends) =
        Inr [\<lparr> id' = ''s2'', sequence = ''TT'', metadata = [] \<rparr>]) \<and>
   (\<exists>stream.
      broadcastMotifs_master [\<lparr> pattern = ''ATGC'', score1 = 1, score2 = 2, score3 = (3::rat) \<rparr>] =
        Inr (stream, [\<lparr> pattern = ''ATGC'', score1 = 1, score2 = 2, score3 = 3 \<rparr>]) \<and>
      broadcastMotifs_worker stream =
        Inr [\<lparr> pattern = ''ATGC'', score1 = 1, score2 = 2, score3 = 3 \<rparr>]) \<and>
   (\<exists>msgs.
      gatherResults_worker
        [\<lparr> motif_pattern = ''AT'', match_count = 1, frequency = (1::rat), matches' = [] \<rparr>] =
        Inr msgs \<and>
      recv_results \<lparr> dbl_zero = 0, dbl_of_size_t = of_nat, dbl_div = (/) \<rparr> msgs =
        Inr [\<lparr> motif_pattern = ''AT'', match_count = 1, frequency = 1, matches' = [] \<rparr>])"
proof -
  let ?s1 = "\<lparr> id' = ''s1'', sequence = ''ACGT'', metadata = [''m''] \<rparr>"
  let ?s2 = "\<lparr> id' = ''s2'', sequence = ''TT'', metadata = [] \<rparr>"
  let ?ms = "[\<lparr> pattern = ''ATGC'', score1 = 1, score2 = 2, score3 = (3::rat) \<rparr>]"
  let ?rs = "[\<lparr> motif_pattern = ''AT'', match_count = 1, frequency = (1::rat), matches' = [] \<rparr>]"
  let ?fp = "\<lparr> dbl_zero = 0, dbl_of_size_t = of_nat, dbl_div = (/) \<rparr> :: rat double_ops"
  have f1: "sequence_fits ?s1" and f2: "sequence_fits ?s2"
    by (simp_all add: sequence_fits_def fits_int_def)
  have h1: "length [?s1, ?s2] < 2 ^ 64" by simp
  have h2: "\<forall>s \<in> set [?s1, ?s2]. sequence_fits s" using f1 f2 by simp
  have h3: "(1::nat) \<le> 1" "(1::nat) < 2" "(2::nat) < 2 ^ 31" by simp_all
  have h4: "fits_int (length ?ms)" "\<forall>m \<in> set ?ms. fits_int (length (pattern m))"
    by (simp_all add: fits_int_def)
  have h5: "fits_int (length ?rs)" "\<forall>x \<in> set ?rs. fits_int (length (motif_pattern x))"
    by (simp_all add: fits_int_def)
  have s0: "slice_of [?s1, ?s2] 2 0 = [?s1]" and s1: "slice_of [?s1, ?s2] 2 1 = [?s2]"
    by (simp_all add: slice_of_def slice_formula_def)
  have w: "map without_matches ?rs = ?rs" by (simp add: without_matches_def)
  from C5_round_trip[OF h1 h2 h3 h4 h5, of ?fp] f1 f2 show ?thesis
    unfolding s0 s1 w by simp
qed

theorem C6_scatter_format_witness:
  "sequence_fits \<lparr> id' = ''s1'', sequence = ''ACGT'', metadata = [''m''] \<rparr> \<and>
   sequence_fits \<lparr> id' = ''s2'', sequence = ''TT'', metadata = [] \<rparr> \<and>
   (\<exists>(sends :: rat send list) local.
      distributeSequences_master 2
        [\<lparr> id' = ''s1'', sequence = ''ACGT'', metadata = [''m''] \<rparr>,
         \<lparr> id' = ''s2'', sequence = ''TT'', metadata = [] \<rparr>] = Inr (sends, local) \<and>
      channel 1 sends =
        [(0, MPI_UNSIGNED_LONG 2), (1, MPI_UNSIGNED_LONG 1),
         (2, MPI_INT 2), (3, MPI_CHAR ''s2''), (4, MPI_INT 2), (5, MPI_CHAR ''TT''),
         (6, MPI_INT 0)])"
proof -
  let ?s1 = "\<lparr> id' = ''s1'', sequence = ''ACGT'', metadata = [''m''] \<rparr>"
  let ?s2 = "\<lparr> id' = ''s2'', sequence = ''TT'', metadata = [] \<rparr>"
  have f1: "sequence_fits ?s1" and f2: "sequence_fits ?s2"
    by (simp_all add: sequence_fits_def fits_int_def)
  have h1: "length [?s1, ?s2] < 2 ^ 64" by simp
  have h2: "\<forall>s \<in> set [?s1, ?s2]. sequence_fits s" using f1 f2 by simp
  have h3: "(1::nat) \<le> 1" "(1::nat) < 2" "(2::nat) < 2 ^ 31" by simp_all
  have s1: "slice_of [?s1, ?s2] 2 1 = [?s2]"
    by (simp add: slice_of_def slice_formula_def)
  from C6_scatter_format[OF h1 h2 h3, where ?'d = rat] f1 f2 show ?thesis
    unfolding s1 by (auto simp: wire_sequence_def wire_string_def)
qed


end
